theory Spec2Isabelle
  imports Complex_Main "HOL-Library.Product_Lexorder"
begin

section \<open>Python strings\<close>

text \<open>
  A Python \<open>str\<close> is a sequence of Unicode code points. It is modelled as a list of
  code points (integers), so that lengths, offsets and slices count what Python counts.
  \<open>str\<close> turns an ASCII literal into such a list.
\<close>

type_synonym pystr = "int list"

definition str :: "string \<Rightarrow> pystr" where
  "str s = map of_char s"

section \<open>difflib.SequenceMatcher\<close>

text \<open>
  \<open>check_json.py\<close> scores two descriptions with
  \<open>SequenceMatcher(None, str(json_desc), str(excel_desc)).ratio()\<close> of Python's standard
  library. The part of \<open>difflib.py\<close> that this call runs is embedded here: \<open>__chain_b\<close>,
  \<open>find_longest_match\<close>, \<open>get_matching_blocks\<close>, \<open>ratio\<close> and \<open>_calculate_ratio\<close>.
  The call passes \<open>isjunk = None\<close> and leaves \<open>autojunk = True\<close>, so the set \<open>bjunk\<close> is
  empty and only the purge of popular elements remains in \<open>__chain_b\<close>.

  Indices are natural numbers. Python's \<open>j2len.get(j-1, 0)\<close> looks up the key \<open>-1\<close> when
  \<open>j = 0\<close>, which is never present; the model returns 0 there explicitly. The loop of
  \<open>get_matching_blocks\<close> starts with the window of the two whole sequences and passes on
  only windows inside the one it took (\<open>find_longest_match_ok\<close> below), so \<open>a[i]\<close> and
  \<open>b[j]\<close> are read in range and \<open>i-k+1\<close>, \<open>j-k+1\<close> are not negative.
\<close>

type_synonym 'a b2j = "'a \<rightharpoonup> nat list"

type_synonym match = "nat \<times> nat \<times> nat"

definition chain_b :: "'a list \<Rightarrow> 'a b2j" where
  "chain_b b =
    (let b2j = fold (\<lambda>(i, elt) m.
                       m(elt \<mapsto> (case m elt of None \<Rightarrow> [] | Some indices \<Rightarrow> indices) @ [i]))
                    (enumerate 0 b) Map.empty;
         n = length b
     in if n \<ge> 200
        then (let ntest = n div 100 + 1
              in (\<lambda>elt. case b2j elt of
                          None \<Rightarrow> None
                        | Some idxs \<Rightarrow> if length idxs > ntest then None else Some idxs))
        else b2j)"

text \<open>
  The inner loop of \<open>find_longest_match\<close>: \<open>for j in b2j.get(a[i], nothing)\<close>, with its
  \<open>continue\<close> and its \<open>break\<close>. The state is \<open>newj2len\<close> and the best match so far.
\<close>

fun inner_loop ::
  "nat \<Rightarrow> nat \<Rightarrow> nat \<Rightarrow> (nat \<rightharpoonup> nat) \<Rightarrow> nat list \<Rightarrow> (nat \<rightharpoonup> nat) \<times> match \<Rightarrow> (nat \<rightharpoonup> nat) \<times> match"
where
  "inner_loop i blo bhi j2len [] st = st"
| "inner_loop i blo bhi j2len (j # js) (newj2len, besti, bestj, bestsize) =
     (if j < blo then inner_loop i blo bhi j2len js (newj2len, besti, bestj, bestsize)
      else if j \<ge> bhi then (newj2len, besti, bestj, bestsize)
      else (let k = (if j = 0 then 0
                     else case j2len (j - 1) of None \<Rightarrow> 0 | Some v \<Rightarrow> v) + 1;
                newj2len' = newj2len(j \<mapsto> k)
            in if k > bestsize
               then inner_loop i blo bhi j2len js (newj2len', i + 1 - k, j + 1 - k, k)
               else inner_loop i blo bhi j2len js (newj2len', besti, bestj, bestsize)))"

text \<open>One iteration of \<open>for i in range(alo, ahi)\<close>; it ends with \<open>j2len = newj2len\<close>.\<close>

definition outer_step ::
  "'a list \<Rightarrow> 'a b2j \<Rightarrow> nat \<Rightarrow> nat \<Rightarrow> nat \<Rightarrow> (nat \<rightharpoonup> nat) \<times> match \<Rightarrow> (nat \<rightharpoonup> nat) \<times> match"
where
  "outer_step a b2j blo bhi i st =
     (case st of (j2len, best) \<Rightarrow>
        inner_loop i blo bhi j2len
          (case b2j (a ! i) of None \<Rightarrow> [] | Some js \<Rightarrow> js) (Map.empty, best))"

text \<open>
  The two \<open>while\<close> loops that extend the best match by non-junk elements on each end.
  (The two loops after them extend by junk elements only and never iterate here.)
\<close>

function extend_left :: "'a list \<Rightarrow> 'a list \<Rightarrow> nat \<Rightarrow> nat \<Rightarrow> match \<Rightarrow> match" where
  "extend_left a b alo blo (besti, bestj, bestsize) =
     (if besti > alo \<and> bestj > blo \<and> a ! (besti - 1) = b ! (bestj - 1)
      then extend_left a b alo blo (besti - 1, bestj - 1, bestsize + 1)
      else (besti, bestj, bestsize))"
  by pat_completeness auto
termination
  by (relation "measure (\<lambda>(a, b, alo, blo, besti, bestj, bestsize). besti)") auto

function extend_right :: "'a list \<Rightarrow> 'a list \<Rightarrow> nat \<Rightarrow> nat \<Rightarrow> match \<Rightarrow> match" where
  "extend_right a b ahi bhi (besti, bestj, bestsize) =
     (if besti + bestsize < ahi \<and> bestj + bestsize < bhi
         \<and> a ! (besti + bestsize) = b ! (bestj + bestsize)
      then extend_right a b ahi bhi (besti, bestj, bestsize + 1)
      else (besti, bestj, bestsize))"
  by pat_completeness auto
termination
  by (relation "measure (\<lambda>(a, b, ahi, bhi, besti, bestj, bestsize). ahi - (besti + bestsize))") auto

definition find_longest_match ::
  "'a list \<Rightarrow> 'a list \<Rightarrow> 'a b2j \<Rightarrow> nat \<Rightarrow> nat \<Rightarrow> nat \<Rightarrow> nat \<Rightarrow> match"
where
  "find_longest_match a b b2j alo ahi blo bhi =
     (case fold (outer_step a b2j blo bhi) [alo..<ahi] (Map.empty, (alo, blo, 0)) of
        (j2len, best) \<Rightarrow> extend_right a b ahi bhi (extend_left a b alo blo best))"

subsection \<open>Bounds of \<open>find_longest_match\<close>\<close>

text \<open>
  The block returned for the window \<open>a[alo:ahi]\<close>, \<open>b[blo:bhi]\<close> lies inside the window.
  The loop of \<open>get_matching_blocks\<close> terminates because of it. \<open>j2len_ok\<close> is the
  invariant of the dictionary \<open>j2len\<close> after \<open>n\<close> iterations of the outer loop, and
  \<open>best_ok\<close> the invariant of \<open>(besti, bestj, bestsize)\<close>.
\<close>

definition j2len_ok :: "nat \<Rightarrow> nat \<Rightarrow> nat \<Rightarrow> (nat \<rightharpoonup> nat) \<Rightarrow> bool" where
  "j2len_ok blo bhi n m \<longleftrightarrow> (\<forall>j v. m j = Some v \<longrightarrow> v \<le> n \<and> blo \<le> j \<and> j < bhi \<and> v \<le> j + 1 - blo)"

definition best_ok :: "nat \<Rightarrow> nat \<Rightarrow> nat \<Rightarrow> nat \<Rightarrow> match \<Rightarrow> bool" where
  "best_ok alo amax blo bmax m \<longleftrightarrow>
     (case m of (bi, bj, bs) \<Rightarrow> alo \<le> bi \<and> bi + bs \<le> amax \<and> blo \<le> bj \<and> bj + bs \<le> bmax)"

lemma inner_loop_ok:
  assumes "j2len_ok blo bhi n j2len"
  shows "j2len_ok blo bhi (Suc n) (fst st) \<Longrightarrow> best_ok alo (alo + Suc n) blo (max blo bhi) (snd st) \<Longrightarrow>
     j2len_ok blo bhi (Suc n) (fst (inner_loop (alo + n) blo bhi j2len js st))
     \<and> best_ok alo (alo + Suc n) blo (max blo bhi) (snd (inner_loop (alo + n) blo bhi j2len js st))"
proof (induction js arbitrary: st)
  case Nil
  then show ?case by simp
next
  case (Cons j js)
  obtain newj2len besti bestj bestsize where st: "st = (newj2len, besti, bestj, bestsize)"
    by (cases st) auto
  show ?case
  proof (cases "j < blo \<or> bhi \<le> j")
    case True
    then show ?thesis using Cons st by auto
  next
    case False
    define k where "k = (if j = 0 then 0 else case j2len (j - 1) of None \<Rightarrow> 0 | Some v \<Rightarrow> v) + 1"
    have k: "k \<le> Suc n" "k \<le> j + 1 - blo" "1 \<le> k"
      using assms False unfolding k_def j2len_ok_def
      by (auto split: option.splits) fastforce+
    have m: "j2len_ok blo bhi (Suc n) (newj2len(j \<mapsto> k))"
      using Cons.prems(1) k False unfolding st j2len_ok_def by auto
    have b: "best_ok alo (alo + Suc n) blo (max blo bhi) (alo + n + 1 - k, j + 1 - k, k)"
      using k False unfolding best_ok_def by auto
    have eq: "inner_loop (alo + n) blo bhi j2len (j # js) st =
        (if k > bestsize
         then inner_loop (alo + n) blo bhi j2len js (newj2len(j \<mapsto> k), alo + n + 1 - k, j + 1 - k, k)
         else inner_loop (alo + n) blo bhi j2len js (newj2len(j \<mapsto> k), besti, bestj, bestsize))"
      using False unfolding st k_def by (simp add: Let_def)
    have b': "best_ok alo (alo + Suc n) blo (max blo bhi) (besti, bestj, bestsize)"
      using Cons.prems(2) unfolding st by simp
    show ?thesis
    proof (cases "k > bestsize")
      case True
      then show ?thesis
        unfolding eq using Cons.IH[of "(newj2len(j \<mapsto> k), alo + n + 1 - k, j + 1 - k, k)"] m b
        by (simp only: fst_conv snd_conv if_True)
    next
      case False
      then show ?thesis
        unfolding eq using Cons.IH[of "(newj2len(j \<mapsto> k), besti, bestj, bestsize)"] m b'
        by (simp only: fst_conv snd_conv if_False)
    qed
  qed
qed


lemma outer_fold_ok:
  "j2len_ok blo bhi n (fst st) \<Longrightarrow> best_ok alo (alo + n) blo (max blo bhi) (snd st) \<Longrightarrow>
   j2len_ok blo bhi (n + d) (fst (fold (outer_step a b2j blo bhi) [alo + n..<alo + n + d] st))
   \<and> best_ok alo (alo + n + d) blo (max blo bhi) (snd (fold (outer_step a b2j blo bhi) [alo + n..<alo + n + d] st))"
proof (induction d arbitrary: st n)
  case 0
  then show ?case by simp
next
  case (Suc d)
  obtain j2len best where st: "st = (j2len, best)" by (cases st) auto
  let ?st' = "outer_step a b2j blo bhi (alo + n) st"
  have e: "j2len_ok blo bhi (Suc n) Map.empty" by (simp add: j2len_ok_def)
  have b: "best_ok alo (alo + Suc n) blo (max blo bhi) best"
    using Suc.prems(2) unfolding st best_ok_def by (auto split: prod.splits)
  have step: "j2len_ok blo bhi (Suc n) (fst ?st') \<and> best_ok alo (alo + Suc n) blo (max blo bhi) (snd ?st')"
    unfolding st outer_step_def using inner_loop_ok[of blo bhi n j2len "(Map.empty, best)" alo] Suc.prems e b
    by (simp add: st)
  have l: "[alo + n..<alo + n + Suc d] = (alo + n) # [alo + Suc n..<alo + Suc n + d]"
    by (simp add: upt_conv_Cons)
  show ?case
    unfolding l using Suc.IH[of "Suc n" ?st'] step by simp
qed

declare extend_left.simps [simp del] extend_right.simps [simp del]

lemma extend_left_ok:
  "best_ok alo amax blo bmax m \<Longrightarrow> best_ok alo amax blo bmax (extend_left a b alo blo m)"
proof (induction a b alo blo m rule: extend_left.induct)
  case (1 a b alo blo besti bestj bestsize)
  show ?case
  proof (cases "besti > alo \<and> bestj > blo \<and> a ! (besti - 1) = b ! (bestj - 1)")
    case True
    have "best_ok alo amax blo bmax (besti - 1, bestj - 1, bestsize + 1)"
      using True "1.prems" unfolding best_ok_def by auto
    then show ?thesis using "1.IH" True by (subst extend_left.simps) simp
  next
    case False
    then show ?thesis using "1.prems" by (subst extend_left.simps) auto
  qed
qed

lemma extend_right_ok:
  "best_ok alo amax blo bmax m \<Longrightarrow> ahi \<le> amax \<Longrightarrow> bhi \<le> bmax \<Longrightarrow>
   best_ok alo amax blo bmax (extend_right a b ahi bhi m)"
proof (induction a b ahi bhi m rule: extend_right.induct)
  case (1 a b ahi bhi besti bestj bestsize)
  show ?case
  proof (cases "besti + bestsize < ahi \<and> bestj + bestsize < bhi
         \<and> a ! (besti + bestsize) = b ! (bestj + bestsize)")
    case True
    have "best_ok alo amax blo bmax (besti, bestj, bestsize + 1)"
      using True "1.prems" unfolding best_ok_def by auto
    then show ?thesis using "1.IH" True "1.prems" by (subst extend_right.simps) simp
  next
    case False
    then show ?thesis using "1.prems" by (subst extend_right.simps) auto
  qed
qed

lemma find_longest_match_ok:
  "best_ok alo (max alo ahi) blo (max blo bhi) (find_longest_match a b b2j alo ahi blo bhi)"
proof -
  let ?st = "fold (outer_step a b2j blo bhi) [alo..<ahi] (Map.empty, (alo, blo, 0))"
  have "best_ok alo (alo + 0 + (ahi - alo)) blo (max blo bhi)
          (snd (fold (outer_step a b2j blo bhi) [alo + 0..<alo + 0 + (ahi - alo)] (Map.empty, (alo, blo, 0))))"
    using outer_fold_ok[of blo bhi 0 "(Map.empty, (alo, blo, 0))" alo "ahi - alo" a b2j]
    by (simp add: j2len_ok_def best_ok_def)
  moreover have "[alo + 0..<alo + 0 + (ahi - alo)] = [alo..<ahi]" by (cases "alo \<le> ahi") auto
  moreover have "alo + 0 + (ahi - alo) = max alo ahi" by auto
  ultimately have "best_ok alo (max alo ahi) blo (max blo bhi) (snd ?st)" by simp
  then have "best_ok alo (max alo ahi) blo (max blo bhi) (extend_right a b ahi bhi (extend_left a b alo blo (snd ?st)))"
    by (intro extend_right_ok extend_left_ok) auto
  then show ?thesis
    unfolding find_longest_match_def by (simp add: split_beta)
qed

subsection \<open>\<open>get_matching_blocks\<close> and \<open>ratio\<close>\<close>

text \<open>
  The \<open>while queue\<close> loop. Python's \<open>queue\<close> is a list used as a stack
  (\<open>queue.pop()\<close> takes the last element, \<open>queue.append\<close> adds one after it); the model
  keeps the top of the stack at the head of the list.
\<close>

function get_matching_blocks_loop ::
  "'a list \<Rightarrow> 'a list \<Rightarrow> 'a b2j \<Rightarrow> (nat \<times> nat \<times> nat \<times> nat) list \<Rightarrow> match list \<Rightarrow> match list"
where
  "get_matching_blocks_loop a b b2j [] matching_blocks = matching_blocks"
| "get_matching_blocks_loop a b b2j ((alo, ahi, blo, bhi) # queue) matching_blocks =
     (case find_longest_match a b b2j alo ahi blo bhi of (i, j, k) \<Rightarrow>
        if k \<noteq> 0
        then get_matching_blocks_loop a b b2j
               ((if i + k < ahi \<and> j + k < bhi then [(i + k, ahi, j + k, bhi)] else []) @
                (if alo < i \<and> blo < j then [(alo, i, blo, j)] else []) @ queue)
               (matching_blocks @ [(i, j, k)])
        else get_matching_blocks_loop a b b2j queue matching_blocks)"
  by pat_completeness auto
termination
proof (relation "measure (\<lambda>(a, b, b2j, queue, matching_blocks).
          sum_list (map (\<lambda>(alo, ahi, blo, bhi). 2 * (ahi - alo) + 1) queue))", goal_cases)
  case 1
  then show ?case by simp
next
  case (2 a b b2j alo ahi blo bhi queue matching_blocks i y j k)
  have "best_ok alo (max alo ahi) blo (max blo bhi) (i, j, k)"
    using find_longest_match_ok[of alo ahi blo bhi a b b2j] 2(1,2) by simp
  then have "alo \<le> i" "i + k \<le> max alo ahi"
    by (simp_all add: best_ok_def)
  then show ?case using 2(3) by auto
next
  case 3
  then show ?case by simp
qed

text \<open>
  The loop \<open>for i2, j2, k2 in matching_blocks\<close> that collapses adjacent blocks; the last
  equation is the \<open>if k1: non_adjacent.append((i1, j1, k1))\<close> after the loop.
\<close>

fun collapse_adjacent :: "match list \<Rightarrow> match \<Rightarrow> match list \<Rightarrow> match list" where
  "collapse_adjacent [] (i1, j1, k1) non_adjacent =
     (if k1 \<noteq> 0 then non_adjacent @ [(i1, j1, k1)] else non_adjacent)"
| "collapse_adjacent ((i2, j2, k2) # matching_blocks) (i1, j1, k1) non_adjacent =
     (if i1 + k1 = i2 \<and> j1 + k1 = j2
      then collapse_adjacent matching_blocks (i1, j1, k1 + k2) non_adjacent
      else collapse_adjacent matching_blocks (i2, j2, k2)
             (if k1 \<noteq> 0 then non_adjacent @ [(i1, j1, k1)] else non_adjacent))"

definition get_matching_blocks :: "'a list \<Rightarrow> 'a list \<Rightarrow> match list" where
  "get_matching_blocks a b =
     (let la = length a; lb = length b;
          matching_blocks = sort (get_matching_blocks_loop a b (chain_b b) [(0, la, 0, lb)] [])
      in collapse_adjacent matching_blocks (0, 0, 0) [] @ [(la, lb, 0)])"

text \<open>
  Python computes \<open>2.0 * matches / length\<close> in floating point. The model keeps the exact
  quotient, a rational number; thresholds are rational numbers too. The two differ only
  where the exact quotient lies below the threshold and its nearest double does not: for
  10/12 and the threshold 0.8333333333333334 Python's comparison holds and the exact one
  does not.
\<close>

definition calculate_ratio :: "nat \<Rightarrow> nat \<Rightarrow> rat" where
  "calculate_ratio matches len = (if len \<noteq> 0 then 2 * of_nat matches / of_nat len else 1)"

definition ratio :: "'a list \<Rightarrow> 'a list \<Rightarrow> rat" where
  "ratio a b =
     (let matches = sum_list (map (\<lambda>(i, j, k). k) (get_matching_blocks a b))
      in calculate_ratio matches (length a + length b))"

section \<open>The Similarity Matcher\<close>

text \<open>
  \<open>match_descriptions\<close> of \<open>check_json.py\<close>. A dictionary is the list of its items in
  iteration order (the keys are distinct); the two nested \<open>for\<close> loops are folds over the
  items, and \<open>matches\<close> is a set of 4-tuples. The descriptions are strings already, so
  \<open>str(json_desc)\<close> and \<open>str(excel_desc)\<close> return them unchanged.
\<close>

type_synonym matched_pair = "pystr \<times> pystr \<times> pystr \<times> pystr"

definition match_descriptions ::
  "(pystr \<times> pystr) list \<Rightarrow> (pystr \<times> pystr) list \<Rightarrow> rat \<Rightarrow> matched_pair set"
where
  "match_descriptions json_dict excel_dict threshold =
     fold (\<lambda>(json_file, json_desc) matches.
             fold (\<lambda>(excel_file, excel_desc) matches.
                     (let similarity = ratio json_desc excel_desc
                      in if similarity \<ge> threshold
                         then insert (json_file, excel_file, json_desc, excel_desc) matches
                         else matches))
                  excel_dict matches)
          json_dict {}"

text \<open>The sentinel that \<open>check_json.py\<close> assigns in the \<open>else\<close> branch of the extraction.\<close>

definition invalid_description :: pystr where
  "invalid_description = str ''Invalid description''"

section \<open>String methods used by the extraction\<close>

text \<open>
  \<open>s.find(sub, start)\<close>: the lowest index at or after \<open>start\<close> where \<open>sub\<close> occurs, or
  \<open>-1\<close>. \<open>find_from sub s i\<close> searches the rest \<open>s\<close> of the string, whose first
  character has index \<open>i\<close>.
\<close>

fun find_from :: "'a list \<Rightarrow> 'a list \<Rightarrow> nat \<Rightarrow> int" where
  "find_from sub [] i = (if sub = [] then int i else - 1)"
| "find_from sub (c # s) i =
     (if take (length sub) (c # s) = sub then int i else find_from sub s (i + 1))"

definition py_find :: "'a list \<Rightarrow> 'a list \<Rightarrow> int \<Rightarrow> int" where
  "py_find s sub start =
     (let n = int (length s);
          lo = (if start < 0 then max (start + n) 0 else start)
      in if lo > n then - 1 else find_from sub (drop (nat lo) s) (nat lo))"

text \<open>
  \<open>s[start:stop]\<close> with step 1: a negative index counts from the end, and both indices
  are clamped to the string. \<open>stop = None\<close> is the slice \<open>s[start:]\<close>.
\<close>

definition slice_index :: "nat \<Rightarrow> int \<Rightarrow> nat" where
  "slice_index n i = (if i < 0 then nat (max (i + int n) 0) else min (nat i) n)"

definition py_slice :: "'a list \<Rightarrow> int \<Rightarrow> int option \<Rightarrow> 'a list" where
  "py_slice s start stop =
     (let n = length s;
          lo = slice_index n start;
          hi = (case stop of None \<Rightarrow> n | Some e \<Rightarrow> slice_index n e)
      in take (hi - lo) (drop lo s))"

text \<open>The code points for which \<open>str.isspace\<close> holds; \<open>strip()\<close> and \<open>rstrip()\<close> remove them.\<close>

definition is_space :: "int \<Rightarrow> bool" where
  "is_space c \<longleftrightarrow>
     (9 \<le> c \<and> c \<le> 13) \<or> (28 \<le> c \<and> c \<le> 32) \<or> c = 133 \<or> c = 160 \<or> c = 5760
     \<or> (8192 \<le> c \<and> c \<le> 8202) \<or> c = 8232 \<or> c = 8233 \<or> c = 8239 \<or> c = 8287 \<or> c = 12288"

definition py_rstrip :: "pystr \<Rightarrow> pystr" where
  "py_rstrip s = rev (dropWhile is_space (rev s))"

definition py_strip :: "pystr \<Rightarrow> pystr" where
  "py_strip s = py_rstrip (dropWhile is_space s)"

text \<open>\<open>s.strip(chars)\<close> removes leading and trailing characters that occur in \<open>chars\<close>.\<close>

definition py_strip_chars :: "'a list \<Rightarrow> 'a list \<Rightarrow> 'a list" where
  "py_strip_chars s chars =
     rev (dropWhile (\<lambda>c. c \<in> set chars) (rev (dropWhile (\<lambda>c. c \<in> set chars) s)))"

text \<open>
  \<open>s.replace(old, new)\<close> replaces the occurrences of \<open>old\<close> from left to right, without
  overlap, in one pass. With an empty \<open>old\<close> Python puts \<open>new\<close> before every character and
  at the end.
\<close>

function py_replace :: "'a list \<Rightarrow> 'a list \<Rightarrow> 'a list \<Rightarrow> 'a list" where
  "py_replace [] old new = (if old = [] then new else [])"
| "py_replace (c # s) old new =
     (if old = [] then new @ c # py_replace s old new
      else if take (length old) (c # s) = old
      then new @ py_replace (drop (length old) (c # s)) old new
      else c # py_replace s old new)"
  by pat_completeness auto
termination
  by (relation "measure (\<lambda>(s, old, new). length s)") auto

section \<open>The Text Normalizer/Extractor\<close>

datatype error = KeyError | IndexError | FileNotFoundError

text \<open>
  A cell of the data frame that \<open>pd.read_excel\<close> returns holds a string or a value of
  another type (a number, \<open>NaN\<close> for an empty cell, a timestamp). All the code does with
  the cell is to call \<open>str\<close> on it, so a value that is not a string is represented by the
  text that \<open>str\<close> returns for it. \<open>py_str\<close> is \<open>str(...)\<close>: its result is a string whatever
  the cell holds. The test \<open>isinstance(action_name, str)\<close> is the case distinction on the
  constructor.
\<close>

datatype cell = Text pystr | Other pystr

fun py_str :: "cell \<Rightarrow> cell" where
  "py_str (Text s) = Text s"
| "py_str (Other r) = Text r"

text \<open>
  A data frame maps a column name to the values of the column.
  \<open>excel_df["Unnamed: 7"]\<close> raises \<open>KeyError\<close> when there is no such column and
  \<open>.iloc[5]\<close> raises \<open>IndexError\<close> when the column has fewer than six rows.
\<close>

type_synonym dataframe = "pystr \<rightharpoonup> cell list"

text \<open>The body of the loop \<open>for excel_file in all_briefings\<close>, for one data frame.\<close>

definition excel_description :: "dataframe \<Rightarrow> error + pystr" where
  "excel_description excel_df =
     (case excel_df (str ''Unnamed: 7'') of
        None \<Rightarrow> Inl KeyError
      | Some column \<Rightarrow>
          if length column \<le> 5 then Inl IndexError
          else (let action_name = py_str (column ! 5)
                in case action_name of
                     Text name \<Rightarrow>
                       (let start = py_find name (str '') '') 0 + 1
                        in Inr (py_replace
                                  (py_replace (py_strip (py_slice name start None)) (str ''/'') [])
                                  (str ''  '') (str '' '')))
                   | Other _ \<Rightarrow> Inr invalid_description))"

text \<open>\<open>d[k] = v\<close> on a dictionary kept as the list of its items.\<close>

fun dict_set :: "('k \<times> 'v) list \<Rightarrow> 'k \<Rightarrow> 'v \<Rightarrow> ('k \<times> 'v) list" where
  "dict_set [] k v = [(k, v)]"
| "dict_set ((k', v') # d) k v = (if k' = k then (k, v) # d else (k', v') # dict_set d k v)"

fun excels_descriptions ::
  "(pystr \<times> dataframe) list \<Rightarrow> (pystr \<times> pystr) list \<Rightarrow> error + (pystr \<times> pystr) list"
where
  "excels_descriptions [] d = Inr d"
| "excels_descriptions ((excel_file, excel_df) # all_briefings) d =
     (case excel_description excel_df of
        Inl e \<Rightarrow> Inl e
      | Inr description \<Rightarrow> excels_descriptions all_briefings (dict_set d excel_file description))"

text \<open>
  The body of the loop \<open>for json_file in all_json_paths\<close>, for the text of one file.
  \<open>quote_comma\<close> is the marker \<open>",\<close> (a double quote and a comma) and \<open>quote\<close> the double
  quote.
\<close>

definition quote :: pystr where
  "quote = [34]"

definition quote_comma :: pystr where
  "quote_comma = [34, 44]"

definition json_description :: "pystr \<Rightarrow> pystr" where
  "json_description json_string =
     (let start = py_find json_string (str '') '') 0 + 2;
          stop = py_find json_string quote_comma start - 5;
          description = py_strip_chars (py_strip (py_slice json_string start (Some stop))) quote
      in description)"

fun json_descriptions :: "(pystr \<times> pystr) list \<Rightarrow> (pystr \<times> pystr) list \<Rightarrow> (pystr \<times> pystr) list" where
  "json_descriptions [] d = d"
| "json_descriptions ((json_file, json_string) # all_json_paths) d =
     json_descriptions all_json_paths (dict_set d json_file (json_description json_string))"

text \<open>
  The reading of the extraction in terms of occurrences: \<open>first_occurrence s sub start\<close>
  is the lowest index at or after \<open>start\<close> where \<open>sub\<close> occurs in \<open>s\<close>, and
  \<open>substring s i j\<close> is the text from index \<open>i\<close> up to index \<open>j\<close>.
  \<open>claimed_json_description\<close> is the description of a structured record as the
  specification words it: from two characters after the first \<open>) \<close> to five characters
  before the first \<open>",\<close> that follows, stripped of whitespace and of double quotes.
\<close>

definition first_occurrence :: "'a list \<Rightarrow> 'a list \<Rightarrow> nat \<Rightarrow> nat option" where
  "first_occurrence s sub start =
     List.find (\<lambda>k. take (length sub) (drop k s) = sub) [start..<Suc (length s)]"

definition substring :: "'a list \<Rightarrow> nat \<Rightarrow> nat \<Rightarrow> 'a list" where
  "substring s i j = take (j - i) (drop i s)"

definition claimed_json_description :: "pystr \<Rightarrow> pystr option" where
  "claimed_json_description s =
     (case first_occurrence s (str '') '') 0 of
        None \<Rightarrow> None
      | Some p \<Rightarrow>
          (case first_occurrence s quote_comma (p + 2) of
             None \<Rightarrow> None
           | Some q \<Rightarrow> Some (py_strip_chars (py_strip (substring s (p + 2) (q - 5))) quote)))"

section \<open>The requesters and the few-shot conversation\<close>

datatype GptRoles = USER | ASSISTANT | SYSTEM

text \<open>
  The texts of the messages are kept symbolic: one constructor for each constant of
  \<open>prompts.py\<close> and for each template with its two placeholders filled in. The templates
  contain no other replacement field, so \<open>str.format\<close> with the two keyword arguments
  returns a string. \<open>ConversionMessage\<close> is the f-string of \<open>process_excel_content\<close>, built
  from \<open>excel_content\<close> and from \<open>json.dumps(example_json_content, indent=2)\<close>.
\<close>

datatype message_text =
    ConversionMessage pystr pystr
  | Rules
  | FirstExample pystr pystr
  | ExpectedResponse1
  | SecondExample pystr pystr
  | ExpectedResponse2
  | ThirdExample pystr pystr
  | ExpectedResponse3
  | NewRequest pystr pystr

text \<open>One turn, \<open>{"role": role, "content": [{"text": text}]}\<close>.\<close>

record turn =
  role :: GptRoles
  content :: "message_text list"

text \<open>The arguments of \<open>s3_client.converse\<close>.\<close>

record request =
  modelId :: string
  messages :: "turn list"
  maxTokens :: nat
  temperature :: rat
  top_k :: nat

definition model_id :: string where
  "model_id = ''anthropic.claude-3-5-sonnet-20240620-v1:0''"

text \<open>
  What a call of the completion service gives inside the \<open>try\<close> block: \<open>Reply text\<close> when
  the call returns and \<open>response["output"]["message"]["content"][0]["text"]\<close> is \<open>text\<close>,
  \<open>Raised e\<close> when the call or the access to the text raises an exception that prints as
  \<open>e\<close>.
\<close>

datatype reply = Reply pystr | Raised pystr

text \<open>
  The lines that the program prints: the \<open>ERROR: Can't invoke '{model_id}'. Reason: {e}\<close>
  line, and the \<open>CHECK\<close> block with the two file names and the discrepancies.
\<close>

datatype printed = InvokeError string pystr | Check pystr pystr pystr

text \<open>
  The outside of the program: the completion service (its answer may depend on the number
  of calls made before), the result of loading \<open>example_json_1.json\<close> (rendered by
  \<open>json.dumps\<close>), the text files, and the spreadsheets rendered by
  \<open>pd.read_excel(...).to_string()\<close>.
\<close>

record env =
  service :: "nat \<Rightarrow> request \<Rightarrow> reply"
  example_json_file :: "error + pystr"
  text_files :: "pystr \<rightharpoonup> pystr"
  excel_strings :: "pystr \<rightharpoonup> pystr"

text \<open>
  The state that the program changes: the requests sent so far, the lines printed so
  far, and the global \<open>example_json_content\<close>.
\<close>

record world =
  sent :: "request list"
  stdout :: "printed list"
  example_json_content :: "pystr option"

text \<open>How a run stops early: \<open>exit(1)\<close>, or an exception that nothing catches.\<close>

datatype stop = Exit nat | Uncaught error

definition load_example_json :: "env \<Rightarrow> world \<Rightarrow> (stop + unit) \<times> world" where
  "load_example_json e w =
     (case example_json_content w of
        Some _ \<Rightarrow> (Inr (), w)
      | None \<Rightarrow>
          (case example_json_file e of
             Inl err \<Rightarrow> (Inl (Uncaught err), w)
           | Inr doc \<Rightarrow> (Inr (), w\<lparr>example_json_content := Some doc\<rparr>)))"

definition conversion_request :: "pystr \<Rightarrow> pystr \<Rightarrow> request" where
  "conversion_request excel_content example =
     \<lparr>modelId = model_id,
      messages = [\<lparr>role = USER, content = [ConversionMessage excel_content example]\<rparr>],
      maxTokens = 4096, temperature = 1 / 100, top_k = 250\<rparr>"

definition process_excel_content :: "env \<Rightarrow> pystr \<Rightarrow> world \<Rightarrow> (stop + pystr) \<times> world" where
  "process_excel_content e excel_content w =
     (case load_example_json e w of
        (Inl s, w1) \<Rightarrow> (Inl s, w1)
      | (Inr _, w1) \<Rightarrow>
          (let req = conversion_request excel_content (the (example_json_content w1));
               w2 = w1\<lparr>sent := sent w1 @ [req]\<rparr>
           in case service e (length (sent w1)) req of
                Reply text \<Rightarrow> (Inr (py_rstrip text), w2)
              | Raised err \<Rightarrow>
                  (Inl (Exit 1), w2\<lparr>stdout := stdout w2 @ [InvokeError model_id err]\<rparr>)))"

definition transform_string_to_prompt :: "message_text \<Rightarrow> GptRoles \<Rightarrow> turn list" where
  "transform_string_to_prompt text r = [\<lparr>role = r, content = [text]\<rparr>]"

text \<open>
  The assembly of \<open>claude_prompt\<close> from \<open>example_jsons_list\<close> and
  \<open>example_briefings_list\<close>. An index out of range raises \<open>IndexError\<close>.
\<close>

definition item :: "'a list \<Rightarrow> nat \<Rightarrow> stop + 'a" where
  "item xs n = (if n < length xs then Inr (xs ! n) else Inl (Uncaught IndexError))"

definition build_claude_prompt :: "pystr list \<Rightarrow> pystr list \<Rightarrow> stop + turn list" where
  "build_claude_prompt example_jsons_list example_briefings_list =
     (let claude_prompt = [] @ transform_string_to_prompt Rules USER
      in case item example_jsons_list 0 of Inl s \<Rightarrow> Inl s | Inr json_1 \<Rightarrow>
         case item example_briefings_list 0 of Inl s \<Rightarrow> Inl s | Inr brf_1 \<Rightarrow>
         let claude_prompt = claude_prompt @ transform_string_to_prompt (FirstExample json_1 brf_1) USER;
             claude_prompt = claude_prompt @ transform_string_to_prompt ExpectedResponse1 ASSISTANT
         in case item example_jsons_list 1 of Inl s \<Rightarrow> Inl s | Inr json_2 \<Rightarrow>
            case item example_briefings_list 1 of Inl s \<Rightarrow> Inl s | Inr brf_2 \<Rightarrow>
            let claude_prompt = claude_prompt @ transform_string_to_prompt (SecondExample json_2 brf_2) USER;
                claude_prompt = claude_prompt @ transform_string_to_prompt ExpectedResponse2 ASSISTANT
            in case item example_jsons_list 2 of Inl s \<Rightarrow> Inl s | Inr json_3 \<Rightarrow>
               case item example_briefings_list 2 of Inl s \<Rightarrow> Inl s | Inr brf_3 \<Rightarrow>
               let claude_prompt = claude_prompt @ transform_string_to_prompt (ThirdExample json_3 brf_3) USER;
                   claude_prompt = claude_prompt @ transform_string_to_prompt ExpectedResponse3 ASSISTANT
               in Inr claude_prompt)"

text \<open>
  \<open>compare_json_excel\<close>. \<open>prompt.extend(...)\<close> changes the list that the caller passed, so
  the function returns the extended list next to its result, also when it stops. The
  argument \<open>new_request\<close> of the source is the template of \<open>prompts.py\<close>; filled in, it
  is the constructor \<open>NewRequest\<close>.
\<close>

definition comparison_request :: "turn list \<Rightarrow> request" where
  "comparison_request prompt =
     \<lparr>modelId = model_id, messages = prompt,
      maxTokens = 4096, temperature = 1 / 10, top_k = 250\<rparr>"

definition compare_json_excel ::
  "env \<Rightarrow> pystr \<Rightarrow> pystr \<Rightarrow> turn list \<Rightarrow> world \<Rightarrow> (stop + pystr) \<times> turn list \<times> world"
where
  "compare_json_excel e clean_briefing json_path prompt w =
     (case text_files e json_path of
        None \<Rightarrow> (Inl (Uncaught FileNotFoundError), prompt, w)
      | Some json_content \<Rightarrow>
          (let prompt' = prompt @ transform_string_to_prompt (NewRequest clean_briefing json_content) USER;
               req = comparison_request prompt';
               w1 = w\<lparr>sent := sent w @ [req]\<rparr>
           in case service e (length (sent w)) req of
                Reply text \<Rightarrow> (Inr (py_rstrip text), prompt', w1)
              | Raised err \<Rightarrow>
                  (Inl (Exit 1), prompt', w1\<lparr>stdout := stdout w1 @ [InvokeError model_id err]\<rparr>)))"

text \<open>\<open>os.path.basename\<close>: what follows the last \<open>/\<close>.\<close>

definition basename :: "pystr \<Rightarrow> pystr" where
  "basename p = rev (takeWhile (\<lambda>c. c \<noteq> 47) (rev p))"

text \<open>
  The loop \<open>for match in matches\<close> at the end of the script, over the matched pairs in the
  order in which the set yields them. \<open>claude_prompt\<close> is the one list that every
  iteration passes to \<open>compare_json_excel\<close>.
\<close>

definition process_match ::
  "env \<Rightarrow> matched_pair \<Rightarrow> turn list \<Rightarrow> world \<Rightarrow> (stop + unit) \<times> turn list \<times> world"
where
  "process_match e m claude_prompt w =
     (case m of (json_file, excel_file, json_desc, excel_desc) \<Rightarrow>
        (case excel_strings e excel_file of
           None \<Rightarrow> (Inl (Uncaught FileNotFoundError), claude_prompt, w)
         | Some excel_str \<Rightarrow>
             (case process_excel_content e excel_str w of
                (Inl s, w1) \<Rightarrow> (Inl s, claude_prompt, w1)
              | (Inr clean_briefing, w1) \<Rightarrow>
                  (case compare_json_excel e clean_briefing json_file claude_prompt w1 of
                     (Inl s, claude_prompt', w2) \<Rightarrow> (Inl s, claude_prompt', w2)
                   | (Inr discrepancies, claude_prompt', w2) \<Rightarrow>
                       (Inr (), claude_prompt',
                        w2\<lparr>stdout := stdout w2 @
                              [Check (basename json_file) (basename excel_file) discrepancies]\<rparr>)))))"

fun matches_loop ::
  "env \<Rightarrow> matched_pair list \<Rightarrow> turn list \<Rightarrow> world \<Rightarrow> (stop + unit) \<times> turn list \<times> world"
where
  "matches_loop e [] claude_prompt w = (Inr (), claude_prompt, w)"
| "matches_loop e (m # ms) claude_prompt w =
     (case process_match e m claude_prompt w of
        (Inl s, claude_prompt', w') \<Rightarrow> (Inl s, claude_prompt', w')
      | (Inr _, claude_prompt', w') \<Rightarrow> matches_loop e ms claude_prompt' w')"

text \<open>
  \<open>stopped r\<close> tells whether a result is an early stop. \<open>fatal_on_failure e w w' r\<close>
  relates the state \<open>w\<close> before a piece of the program to the state \<open>w'\<close> after it and to
  how it ended: the requests sent in between are added after those of \<open>w\<close>, and if the
  service raised for one of them, the piece ended with \<open>exit(1)\<close>, that request is the
  last one sent, and the last line printed is the error line with the model identifier
  and the error.
\<close>

definition stopped :: "stop + 'a \<Rightarrow> stop option" where
  "stopped r = (case r of Inl s \<Rightarrow> Some s | Inr _ \<Rightarrow> None)"

definition fatal_on_failure :: "env \<Rightarrow> world \<Rightarrow> world \<Rightarrow> stop option \<Rightarrow> bool" where
  "fatal_on_failure e w w' r \<longleftrightarrow>
     sent w' = sent w @ drop (length (sent w)) (sent w')
     \<and> (\<forall>(k, req) \<in> set (enumerate (length (sent w)) (drop (length (sent w)) (sent w'))).
           case service e k req of
             Reply _ \<Rightarrow> True
           | Raised err \<Rightarrow>
               r = Some (Exit 1) \<and> Suc k = length (sent w')
               \<and> stdout w' \<noteq> [] \<and> last (stdout w') = InvokeError model_id err)"

text \<open>
  A small run, used to evaluate the program: two matched pairs, their files, a service
  that answers \<open>ok\<close> to every call, and a service that raises at its \<open>n\<close>-th call
  (counted from 0).
\<close>

definition quiet_service :: "nat \<Rightarrow> request \<Rightarrow> reply" where
  "quiet_service k req = Reply (str ''ok'')"

definition failing_service :: "nat \<Rightarrow> nat \<Rightarrow> request \<Rightarrow> reply" where
  "failing_service n k req = (if k = n then Raised (str ''timeout'') else Reply (str ''ok''))"

definition scenario_env :: "(nat \<Rightarrow> request \<Rightarrow> reply) \<Rightarrow> env" where
  "scenario_env svc =
     \<lparr>service = svc,
      example_json_file = Inr (str ''{}''),
      text_files = [str ''a.json'' \<mapsto> str ''ja'', str ''b.json'' \<mapsto> str ''jb''],
      excel_strings = [str ''a.xlsx'' \<mapsto> str ''xa'', str ''b.xlsx'' \<mapsto> str ''xb'']\<rparr>"

definition scenario_matches :: "matched_pair list" where
  "scenario_matches =
     [(str ''a.json'', str ''a.xlsx'', str ''da'', str ''da''),
      (str ''b.json'', str ''b.xlsx'', str ''db'', str ''db'')]"

definition initial_world :: world where
  "initial_world = \<lparr>sent = [], stdout = [], example_json_content = None\<rparr>"

definition few_shot :: "turn list" where
  "few_shot =
     [\<lparr>role = USER, content = [Rules]\<rparr>,
      \<lparr>role = USER, content = [FirstExample (str ''j1'') (str ''b1'')]\<rparr>,
      \<lparr>role = ASSISTANT, content = [ExpectedResponse1]\<rparr>,
      \<lparr>role = USER, content = [SecondExample (str ''j2'') (str ''b2'')]\<rparr>,
      \<lparr>role = ASSISTANT, content = [ExpectedResponse2]\<rparr>,
      \<lparr>role = USER, content = [ThirdExample (str ''j3'') (str ''b3'')]\<rparr>,
      \<lparr>role = ASSISTANT, content = [ExpectedResponse3]\<rparr>]"

section \<open>Facts about the embedding of \<open>difflib\<close>\<close>

subsection \<open>What \<open>__chain_b\<close> builds\<close>

lemma filter_upt_snoc:
  "filter (\<lambda>j. (ys @ [y]) ! j = x) [0..<Suc (length ys)]
   = filter (\<lambda>j. ys ! j = x) [0..<length ys] @ (if y = x then [length ys] else [])"
proof -
  have "filter (\<lambda>j. (ys @ [y]) ! j = x) [0..<length ys] = filter (\<lambda>j. ys ! j = x) [0..<length ys]"
    by (rule filter_cong) (auto simp: nth_append)
  then show ?thesis by simp
qed

lemma filter_nth_empty: "y \<notin> set ys \<Longrightarrow> filter (\<lambda>j. ys ! j = y) [0..<length ys] = []"
  by (auto simp: filter_empty_conv)

lemma b2j_fold:
  "fold (\<lambda>(i, elt) m.
           m(elt \<mapsto> (case m elt of None \<Rightarrow> [] | Some indices \<Rightarrow> indices) @ [i]))
        (enumerate 0 b) Map.empty
   = (\<lambda>x. if x \<in> set b then Some (filter (\<lambda>j. b ! j = x) [0..<length b]) else None)"
proof (induction b rule: rev_induct)
  case Nil
  then show ?case by simp
next
  case (snoc y ys)
  have e: "enumerate 0 (ys @ [y]) = enumerate 0 ys @ [(length ys, y)]"
    by (simp add: enumerate_append_eq)
  show ?case
    unfolding e fold_append o_apply snoc.IH
    by (rule ext) (simp add: filter_upt_snoc filter_nth_empty del: upt_Suc)
qed

lemma chain_b_short:
  "length b < 200 \<Longrightarrow>
   chain_b b = (\<lambda>x. if x \<in> set b then Some (filter (\<lambda>j. b ! j = x) [0..<length b]) else None)"
  unfolding chain_b_def b2j_fold by (simp add: Let_def)

lemma chain_b_None: "x \<notin> set b \<Longrightarrow> chain_b b x = None"
  unfolding chain_b_def b2j_fold by (simp add: Let_def)

subsection \<open>Sequences with no common element\<close>

lemma outer_fold_no_key:
  "\<forall>i \<in> set is. b2j (a ! i) = None \<Longrightarrow>
   snd (fold (outer_step a b2j blo bhi) is st) = snd st"
  by (induction "is" arbitrary: st) (auto simp: outer_step_def split: prod.splits)

lemma find_longest_match_disjoint:
  assumes "set a \<inter> set b = {}"
  shows "find_longest_match a b (chain_b b) 0 (length a) 0 (length b) = (0, 0, 0)"
proof -
  have "a ! i \<notin> set b" if "i < length a" for i
    using assms nth_mem[OF that] by blast
  then have "\<forall>i \<in> set [0..<length a]. chain_b b (a ! i) = None"
    by (simp add: chain_b_None)
  then have s: "snd (fold (outer_step a (chain_b b) 0 (length b)) [0..<length a] (Map.empty, (0, 0, 0))) = (0, 0, 0)"
    by (simp add: outer_fold_no_key)
  have l: "extend_left a b 0 0 (0, 0, 0) = (0, 0, 0)"
    by (subst extend_left.simps) simp
  have "a \<noteq> [] \<Longrightarrow> b \<noteq> [] \<Longrightarrow> a ! 0 \<noteq> b ! 0"
    using assms by (metis disjoint_iff length_greater_0_conv nth_mem)
  then have r: "extend_right a b (length a) (length b) (0, 0, 0) = (0, 0, 0)"
    by (subst extend_right.simps) auto
  show ?thesis
    unfolding find_longest_match_def using s l r by (simp add: split_beta)
qed

lemma get_matching_blocks_disjoint:
  assumes "set a \<inter> set b = {}"
  shows "get_matching_blocks a b = [(length a, length b, 0)]"
  unfolding get_matching_blocks_def
  by (simp add: find_longest_match_disjoint[OF assms])

lemma ratio_disjoint:
  assumes "set a \<inter> set b = {}"
  shows "ratio a b = (if a = [] \<and> b = [] then 1 else 0)"
  unfolding ratio_def get_matching_blocks_disjoint[OF assms] calculate_ratio_def by simp

subsection \<open>A sequence compared with itself\<close>

text \<open>
  Below 200 elements \<open>__chain_b\<close> purges nothing, and the longest match of a sequence
  with itself is the whole sequence. \<open>run_length j2len j\<close> is the value that the inner loop
  stores in \<open>newj2len[j]\<close>.
\<close>

definition run_length :: "(nat \<rightharpoonup> nat) \<Rightarrow> nat \<Rightarrow> nat" where
  "run_length j2len j = (if j = 0 then 0 else case j2len (j - 1) of None \<Rightarrow> 0 | Some v \<Rightarrow> v) + 1"

definition in_window_post ::
  "(nat \<rightharpoonup> nat) \<Rightarrow> nat list \<Rightarrow> (nat \<rightharpoonup> nat) \<Rightarrow> nat \<Rightarrow> (nat \<rightharpoonup> nat) \<times> match \<Rightarrow> bool"
where
  "in_window_post j2len js m bs r \<longleftrightarrow>
     (\<forall>j. fst r j = (if j \<in> set js then Some (run_length j2len j) else m j))
     \<and> bs \<le> snd (snd (snd r))
     \<and> (\<forall>j \<in> set js. run_length j2len j \<le> snd (snd (snd r)))"

lemma in_window_post_better:
  "in_window_post j2len js (m(j \<mapsto> run_length j2len j)) (run_length j2len j) r \<Longrightarrow>
   bs < run_length j2len j \<Longrightarrow> in_window_post j2len (j # js) m bs r"
  by (auto simp: in_window_post_def)

lemma in_window_post_same:
  "in_window_post j2len js (m(j \<mapsto> run_length j2len j)) bs r \<Longrightarrow>
   \<not> bs < run_length j2len j \<Longrightarrow> in_window_post j2len (j # js) m bs r"
  by (auto simp: in_window_post_def)

lemma inner_loop_in_window:
  assumes "\<forall>j \<in> set js. blo \<le> j \<and> j < bhi"
  shows "in_window_post j2len js m bs (inner_loop i blo bhi j2len js (m, bi, bj, bs))"
  using assms
proof (induction js arbitrary: m bi bj bs)
  case Nil
  then show ?case by (simp add: in_window_post_def)
next
  case (Cons j js)
  let ?k = "run_length j2len j"
  have w: "\<not> j < blo" "\<not> bhi \<le> j" "\<forall>j \<in> set js. blo \<le> j \<and> j < bhi"
    using Cons.prems by auto
  show ?case
  proof (cases "?k > bs")
    case True
    have eq: "inner_loop i blo bhi j2len (j # js) (m, bi, bj, bs)
              = inner_loop i blo bhi j2len js (m(j \<mapsto> ?k), i + 1 - ?k, j + 1 - ?k, ?k)"
      using w True by (simp add: run_length_def Let_def)
    show ?thesis
      unfolding eq by (rule in_window_post_better[OF Cons.IH[OF w(3)] True])
  next
    case False
    have eq: "inner_loop i blo bhi j2len (j # js) (m, bi, bj, bs)
              = inner_loop i blo bhi j2len js (m(j \<mapsto> ?k), bi, bj, bs)"
      using w False by (simp add: run_length_def Let_def)
    show ?thesis
      unfolding eq by (rule in_window_post_same[OF Cons.IH[OF w(3)] False])
  qed
qed

lemma diagonal_fold:
  assumes "length s < 200" "i \<le> length s"
  shows "(i > 0 \<longrightarrow> fst (fold (outer_step s (chain_b s) 0 (length s)) [0..<i] (Map.empty, (0, 0, 0))) (i - 1) = Some i)
       \<and> i \<le> snd (snd (snd (fold (outer_step s (chain_b s) 0 (length s)) [0..<i] (Map.empty, (0, 0, 0)))))"
  using assms(2)
proof (induction i)
  case 0
  then show ?case by simp
next
  case (Suc i)
  let ?st = "fold (outer_step s (chain_b s) 0 (length s)) [0..<i] (Map.empty, (0, 0, 0))"
  obtain j2len bi bj bs where st: "?st = (j2len, bi, bj, bs)" by (cases ?st) auto
  have ih: "i > 0 \<longrightarrow> j2len (i - 1) = Some i" "i \<le> bs"
    using Suc st by auto
  let ?js = "filter (\<lambda>j. s ! j = s ! i) [0..<length s]"
  have mem: "i \<in> set ?js" using Suc.prems by simp
  have win: "\<forall>j \<in> set ?js. 0 \<le> j \<and> j < length s" by simp
  have b2j: "chain_b s (s ! i) = Some ?js"
    using Suc.prems assms(1) by (simp add: chain_b_short)
  have step: "outer_step s (chain_b s) 0 (length s) i ?st
       = inner_loop i 0 (length s) j2len ?js (Map.empty, bi, bj, bs)"
    unfolding st outer_step_def b2j by simp
  have rl: "run_length j2len i = Suc i"
    using ih(1) by (cases "i = 0") (auto simp: run_length_def)
  have f: "fold (outer_step s (chain_b s) 0 (length s)) [0..<Suc i] (Map.empty, (0, 0, 0))
       = inner_loop i 0 (length s) j2len ?js (Map.empty, bi, bj, bs)"
    using step by simp
  show ?case
    unfolding f using inner_loop_in_window[OF win, of j2len Map.empty bs i bi bj] mem rl
    unfolding in_window_post_def by (auto simp del: set_filter)
qed

lemma extend_left_size: "snd (snd m) \<le> snd (snd (extend_left a b alo blo m))"
proof (induction a b alo blo m rule: extend_left.induct)
  case (1 a b alo blo besti bestj bestsize)
  show ?case
  proof (cases "besti > alo \<and> bestj > blo \<and> a ! (besti - 1) = b ! (bestj - 1)")
    case True
    then show ?thesis using "1.IH" by (subst extend_left.simps) simp
  next
    case False
    then show ?thesis by (subst extend_left.simps) auto
  qed
qed

lemma extend_right_size: "snd (snd m) \<le> snd (snd (extend_right a b ahi bhi m))"
proof (induction a b ahi bhi m rule: extend_right.induct)
  case (1 a b ahi bhi besti bestj bestsize)
  show ?case
  proof (cases "besti + bestsize < ahi \<and> bestj + bestsize < bhi
         \<and> a ! (besti + bestsize) = b ! (bestj + bestsize)")
    case True
    then show ?thesis using "1.IH" by (subst extend_right.simps) simp
  next
    case False
    then show ?thesis by (subst extend_right.simps) auto
  qed
qed

lemma find_longest_match_same:
  assumes "length s < 200"
  shows "find_longest_match s s (chain_b s) 0 (length s) 0 (length s) = (0, 0, length s)"
proof -
  let ?st = "fold (outer_step s (chain_b s) 0 (length s)) [0..<length s] (Map.empty, (0, 0, 0))"
  let ?r = "find_longest_match s s (chain_b s) 0 (length s) 0 (length s)"
  have ge: "length s \<le> snd (snd (snd ?st))"
    using diagonal_fold[OF assms, of "length s"] by simp
  have flm: "?r = extend_right s s (length s) (length s) (extend_left s s 0 0 (snd ?st))"
    unfolding find_longest_match_def by (simp add: split_beta)
  have "snd (snd (snd ?st)) \<le> snd (snd ?r)"
    unfolding flm using extend_left_size[of "snd ?st" s s 0 0] extend_right_size order_trans by blast
  then have k: "length s \<le> snd (snd ?r)" using ge by simp
  obtain i j k where r: "?r = (i, j, k)" by (cases ?r) auto
  have "best_ok 0 (length s) 0 (length s) (i, j, k)"
    using find_longest_match_ok[of 0 "length s" 0 "length s" s s "chain_b s"] r by simp
  then show ?thesis
    using k unfolding r best_ok_def by auto
qed

lemma get_matching_blocks_same:
  assumes "length s < 200" "s \<noteq> []"
  shows "get_matching_blocks s s = [(0, 0, length s), (length s, length s, 0)]"
  unfolding get_matching_blocks_def using assms(2)
  by (simp add: find_longest_match_same[OF assms(1)] Let_def)

lemma ratio_same:
  assumes "length s < 200"
  shows "ratio s s = 1"
proof (cases "s = []")
  case True
  then show ?thesis by (simp add: ratio_disjoint)
next
  case False
  then show ?thesis
    unfolding ratio_def get_matching_blocks_same[OF assms False] calculate_ratio_def by simp
qed

subsection \<open>\<open>find\<close> returns the first occurrence\<close>

lemma find_from_first_occurrence:
  "i \<le> length s \<Longrightarrow>
   find_from sub (drop i s) i =
     (case List.find (\<lambda>k. take (length sub) (drop k s) = sub) [i..<Suc (length s)] of
        None \<Rightarrow> - 1 | Some k \<Rightarrow> int k)"
proof (induction "length s - i" arbitrary: i)
  case 0
  then have i: "i = length s" by simp
  show ?case unfolding i by auto
next
  case (Suc d)
  then have lt: "i < length s" by simp
  have d: "drop i s = s ! i # drop (Suc i) s"
    using lt by (simp add: Cons_nth_drop_Suc)
  have u: "[i..<Suc (length s)] = i # [Suc i..<Suc (length s)]"
    using lt by (simp add: upt_conv_Cons)
  have ih: "find_from sub (drop (Suc i) s) (Suc i) =
     (case List.find (\<lambda>k. take (length sub) (drop k s) = sub) [Suc i..<Suc (length s)] of
        None \<Rightarrow> - 1 | Some k \<Rightarrow> int k)"
    using Suc.hyps(1)[of "Suc i"] Suc.hyps(2) lt by simp
  have "find_from sub (s ! i # drop (Suc i) s) i =
      (if take (length sub) (s ! i # drop (Suc i) s) = sub then int i
       else find_from sub (drop (Suc i) s) (i + 1))"
    by (rule find_from.simps(2))
  then have step: "find_from sub (drop i s) i =
      (if take (length sub) (drop i s) = sub then int i
       else find_from sub (drop (Suc i) s) (Suc i))"
    unfolding d[symmetric] by simp
  show ?case
    unfolding u step ih by (simp del: upt_Suc)
qed

lemma py_find_first_occurrence:
  "start \<le> length s \<Longrightarrow>
   py_find s sub (int start) =
     (case first_occurrence s sub start of None \<Rightarrow> - 1 | Some k \<Rightarrow> int k)"
  unfolding py_find_def first_occurrence_def
  by (simp add: Let_def find_from_first_occurrence)

lemma find_SomeD: "List.find P xs = Some k \<Longrightarrow> k \<in> set xs \<and> P k"
  by (induction xs) (auto split: if_splits)

lemma first_occurrence_SomeD:
  "first_occurrence s sub start = Some k \<Longrightarrow>
   start \<le> k \<and> k \<le> length s \<and> take (length sub) (drop k s) = sub"
  unfolding first_occurrence_def using find_SomeD[of _ "[start..<Suc (length s)]" k]
  by (fastforce simp del: upt_Suc)

lemma length_str [simp]: "length (str s) = length s"
  by (simp add: str_def)

lemma slice_index_nonneg: "slice_index n (int k) = min k n"
  by (simp add: slice_index_def)


subsection \<open>A failed call of the completion service\<close>

lemma fatal_on_failure_iff:
  "fatal_on_failure e w w' r \<longleftrightarrow>
     (\<exists>new. sent w' = sent w @ new \<and>
        (\<forall>k < length new. \<forall>err.
           service e (length (sent w) + k) (new ! k) = Raised err \<longrightarrow>
             r = Some (Exit 1) \<and> Suc (length (sent w) + k) = length (sent w')
             \<and> stdout w' \<noteq> [] \<and> last (stdout w') = InvokeError model_id err))"
  (is "?L \<longleftrightarrow> ?R")
proof
  assume l: ?L
  let ?new = "drop (length (sent w)) (sent w')"
  have s: "sent w' = sent w @ ?new" using l by (simp add: fatal_on_failure_def)
  have "r = Some (Exit 1) \<and> Suc (length (sent w) + k) = length (sent w')
        \<and> stdout w' \<noteq> [] \<and> last (stdout w') = InvokeError model_id err"
    if "k < length ?new" "service e (length (sent w) + k) (?new ! k) = Raised err" for k err
  proof -
    have "(length (sent w) + k, ?new ! k) \<in> set (enumerate (length (sent w)) ?new)"
      using that(1) by (simp add: in_set_enumerate_eq)
    then have "case service e (length (sent w) + k) (?new ! k) of
             Reply _ \<Rightarrow> True
           | Raised err \<Rightarrow>
               r = Some (Exit 1) \<and> Suc (length (sent w) + k) = length (sent w')
               \<and> stdout w' \<noteq> [] \<and> last (stdout w') = InvokeError model_id err"
      using l unfolding fatal_on_failure_def by blast
    then show ?thesis
      unfolding that(2) by simp
  qed
  then show ?R using s by blast
next
  assume ?R
  then obtain new where n: "sent w' = sent w @ new"
    and a: "\<And>k err. k < length new \<Longrightarrow>
           service e (length (sent w) + k) (new ! k) = Raised err \<Longrightarrow>
             r = Some (Exit 1) \<and> Suc (length (sent w) + k) = length (sent w')
             \<and> stdout w' \<noteq> [] \<and> last (stdout w') = InvokeError model_id err"
    by blast
  have d: "drop (length (sent w)) (sent w') = new" using n by simp
  have "case service e k req of
          Reply _ \<Rightarrow> True
        | Raised err \<Rightarrow>
            r = Some (Exit 1) \<and> Suc k = length (sent w')
            \<and> stdout w' \<noteq> [] \<and> last (stdout w') = InvokeError model_id err"
    if "(k, req) \<in> set (enumerate (length (sent w)) new)" for k req
  proof -
    have k: "length (sent w) \<le> k" "k - length (sent w) < length new"
      "new ! (k - length (sent w)) = req"
      using that by (auto simp: in_set_enumerate_eq)
    show ?thesis
    proof (cases "service e k req")
      case (Reply x)
      then show ?thesis by simp
    next
      case (Raised err)
      have "service e (length (sent w) + (k - length (sent w))) (new ! (k - length (sent w)))
            = Raised err"
        using Raised k by simp
      from a[OF k(2) this] show ?thesis
        using Raised k(1) by simp
    qed
  qed
  then show ?L
    unfolding fatal_on_failure_def d using n by blast
qed


lemma fatal_on_failure_same: "sent w' = sent w \<Longrightarrow> fatal_on_failure e w w' r"
  unfolding fatal_on_failure_iff by simp

lemma fatal_on_failure_one:
  assumes "sent w' = sent w @ [req]"
    and "\<And>err. service e (length (sent w)) req = Raised err \<Longrightarrow>
           r = Some (Exit 1) \<and> stdout w' \<noteq> [] \<and> last (stdout w') = InvokeError model_id err"
  shows "fatal_on_failure e w w' r"
  unfolding fatal_on_failure_iff
  using assms by (intro exI[of _ "[req]"]) auto

lemma fatal_on_failure_trans:
  assumes "fatal_on_failure e w w1 None" "fatal_on_failure e w1 w2 r"
  shows "fatal_on_failure e w w2 r"
proof -
  obtain new1 where n1: "sent w1 = sent w @ new1"
    and a1: "\<And>k err. k < length new1 \<Longrightarrow>
               service e (length (sent w) + k) (new1 ! k) \<noteq> Raised err"
    using assms(1) unfolding fatal_on_failure_iff by fastforce
  obtain new2 where n2: "sent w2 = sent w1 @ new2"
    and a2: "\<And>k err. k < length new2 \<Longrightarrow>
           service e (length (sent w1) + k) (new2 ! k) = Raised err \<Longrightarrow>
             r = Some (Exit 1) \<and> Suc (length (sent w1) + k) = length (sent w2)
             \<and> stdout w2 \<noteq> [] \<and> last (stdout w2) = InvokeError model_id err"
    using assms(2) unfolding fatal_on_failure_iff by blast
  have "r = Some (Exit 1) \<and> Suc (length (sent w) + k) = length (sent w2)
        \<and> stdout w2 \<noteq> [] \<and> last (stdout w2) = InvokeError model_id err"
    if k: "k < length (new1 @ new2)"
      and s: "service e (length (sent w) + k) ((new1 @ new2) ! k) = Raised err" for k err
  proof (cases "k < length new1")
    case True
    then show ?thesis using a1[of k err] s by (simp add: nth_append)
  next
    case False
    then have "service e (length (sent w1) + (k - length new1)) (new2 ! (k - length new1)) = Raised err"
      using s n1 by (simp add: nth_append)
    moreover have "k - length new1 < length new2" using k False by simp
    ultimately show ?thesis
      using a2[of "k - length new1" err] n1 False by simp
  qed
  moreover have "sent w2 = sent w @ (new1 @ new2)" using n1 n2 by simp
  ultimately show ?thesis
    unfolding fatal_on_failure_iff by blast
qed

lemma fatal_on_failure_quiet:
  assumes "fatal_on_failure e w w1 None" "sent w2 = sent w1"
  shows "fatal_on_failure e w w2 r"
proof -
  obtain new1 where n1: "sent w1 = sent w @ new1"
    and a1: "\<And>k err. k < length new1 \<Longrightarrow>
               service e (length (sent w) + k) (new1 ! k) \<noteq> Raised err"
    using assms(1) unfolding fatal_on_failure_iff by fastforce
  show ?thesis
    unfolding fatal_on_failure_iff using n1 a1 assms(2) by auto
qed

lemma load_example_json_sent: "sent (snd (load_example_json e w)) = sent w"
  by (simp add: load_example_json_def split: option.splits sum.splits)

lemma load_example_json_stdout: "stdout (snd (load_example_json e w)) = stdout w"
  by (simp add: load_example_json_def split: option.splits sum.splits)

lemma process_excel_content_fatal:
  "fatal_on_failure e w (snd (process_excel_content e x w)) (stopped (fst (process_excel_content e x w)))"
proof (cases "load_example_json e w")
  case (Pair r w1)
  have s1: "sent w1 = sent w" using load_example_json_sent[of e w] Pair by simp
  show ?thesis
  proof (cases r)
    case (Inl s)
    then show ?thesis
      using Pair s1 by (simp add: process_excel_content_def fatal_on_failure_same)
  next
    case (Inr u)
    let ?req = "conversion_request x (the (example_json_content w1))"
    show ?thesis
    proof (cases "service e (length (sent w1)) ?req")
      case (Reply answer)
      then show ?thesis
        using Pair Inr s1
        by (intro fatal_on_failure_one[of _ _ ?req])
           (simp_all add: process_excel_content_def Let_def)
    next
      case (Raised err)
      then show ?thesis
        using Pair Inr s1
        by (intro fatal_on_failure_one[of _ _ ?req])
           (simp_all add: process_excel_content_def Let_def stopped_def)
    qed
  qed
qed

lemma compare_json_excel_fatal:
  "fatal_on_failure e w (snd (snd (compare_json_excel e cb jp p w)))
     (stopped (fst (compare_json_excel e cb jp p w)))"
proof (cases "text_files e jp")
  case None
  then show ?thesis by (simp add: compare_json_excel_def fatal_on_failure_same)
next
  case (Some json_content)
  let ?req = "comparison_request (p @ transform_string_to_prompt (NewRequest cb json_content) USER)"
  show ?thesis
  proof (cases "service e (length (sent w)) ?req")
    case (Reply answer)
    then show ?thesis
      using Some
      by (intro fatal_on_failure_one[of _ _ ?req])
         (simp_all add: compare_json_excel_def Let_def)
  next
    case (Raised err)
    then show ?thesis
      using Some
      by (intro fatal_on_failure_one[of _ _ ?req])
         (simp_all add: compare_json_excel_def Let_def stopped_def)
  qed
qed


lemma stopped_simps [simp]: "stopped (Inl s) = Some s" "stopped (Inr x) = None"
  by (simp_all add: stopped_def)

lemma process_match_fatal:
  "fatal_on_failure e w (snd (snd (process_match e m p w))) (stopped (fst (process_match e m p w)))"
proof -
  obtain json_file excel_file json_desc excel_desc
    where m: "m = (json_file, excel_file, json_desc, excel_desc)"
    by (cases m) auto
  show ?thesis
  proof (cases "excel_strings e excel_file")
    case None
    then show ?thesis by (simp add: process_match_def m fatal_on_failure_same)
  next
    case (Some excel_str)
    obtain r1 w1 where c1: "process_excel_content e excel_str w = (r1, w1)"
      by (cases "process_excel_content e excel_str w") auto
    have f1: "fatal_on_failure e w w1 (stopped r1)"
      using process_excel_content_fatal[of e w excel_str] c1 by simp
    show ?thesis
    proof (cases r1)
      case (Inl s)
      then show ?thesis
        using f1 Some c1 by (simp add: process_match_def m)
    next
      case (Inr clean_briefing)
      obtain r2 p2 w2 where c2: "compare_json_excel e clean_briefing json_file p w1 = (r2, p2, w2)"
        by (cases "compare_json_excel e clean_briefing json_file p w1") auto
      have f2: "fatal_on_failure e w1 w2 (stopped r2)"
        using compare_json_excel_fatal[of e w1 clean_briefing json_file p] c2 by simp
      have n1: "fatal_on_failure e w w1 None"
        using f1 Inr by (simp add: stopped_def)
      have f: "fatal_on_failure e w w2 (stopped r2)"
        by (rule fatal_on_failure_trans[OF n1 f2])
      show ?thesis
      proof (cases r2)
        case (Inl s)
        then show ?thesis
          using f Some c1 c2 Inr by (simp add: process_match_def m)
      next
        case (Inr discrepancies)
        have "fatal_on_failure e w w2 None"
          using f Inr by (simp add: stopped_def)
        then have "fatal_on_failure e w
            (w2\<lparr>stdout := stdout w2 @ [Check (basename json_file) (basename excel_file) discrepancies]\<rparr>)
            None"
          by (rule fatal_on_failure_quiet) simp
        then show ?thesis
          using Some c1 c2 Inr \<open>r1 = Inr clean_briefing\<close>
          by (simp add: process_match_def m stopped_def)
      qed
    qed
  qed
qed

lemma matches_loop_fatal:
  "fatal_on_failure e w (snd (snd (matches_loop e ms p w))) (stopped (fst (matches_loop e ms p w)))"
proof (induction ms arbitrary: p w)
  case Nil
  then show ?case by (simp add: fatal_on_failure_same)
next
  case (Cons m ms)
  obtain r1 p1 w1 where c: "process_match e m p w = (r1, p1, w1)"
    by (cases "process_match e m p w") auto
  have f1: "fatal_on_failure e w w1 (stopped r1)"
    using process_match_fatal[of e w m p] c by simp
  show ?case
  proof (cases r1)
    case (Inl s)
    then show ?thesis using f1 c by simp
  next
    case (Inr u)
    have "fatal_on_failure e w w1 None"
      using f1 Inr by (simp add: stopped_def)
    then show ?thesis
      using fatal_on_failure_trans[OF _ Cons.IH[of w1 p1]] c Inr by simp
  qed
qed

lemmas run_defs = scenario_env_def scenario_matches_def initial_world_def few_shot_def
  process_match_def process_excel_content_def load_example_json_def compare_json_excel_def
  conversion_request_def comparison_request_def transform_string_to_prompt_def
  quiet_service_def failing_service_def py_rstrip_def is_space_def str_def Let_def

subsection \<open>What \<open>match_descriptions\<close> returns\<close>

lemma inner_fold_matches:
  "fold (\<lambda>(excel_file, excel_desc) matches.
           (let similarity = ratio jd excel_desc
            in if similarity \<ge> t then insert (jf, excel_file, jd, excel_desc) matches
               else matches)) es M
   = M \<union> {(jf, ef, jd, ed) | ef ed. (ef, ed) \<in> set es \<and> t \<le> ratio jd ed}"
  by (induction es arbitrary: M) (auto simp: Let_def split: if_splits)

lemma fold_union_items:
  "fold (\<lambda>(jf, jd) M. M \<union> G jf jd) js M = M \<union> (\<Union>(jf, jd) \<in> set js. G jf jd)"
  by (induction js arbitrary: M) auto

lemma match_descriptions_iff:
  "(jf, ef, jd, ed) \<in> match_descriptions js es t \<longleftrightarrow>
     (jf, jd) \<in> set js \<and> (ef, ed) \<in> set es \<and> t \<le> ratio jd ed"
  unfolding match_descriptions_def inner_fold_matches fold_union_items by auto

lemma ratio_tide_diet: "ratio (str ''tide'') (str ''diet'') = 1 / 4"
  by code_simp

lemma ratio_diet_tide: "ratio (str ''diet'') (str ''tide'') = 1 / 2"
  by code_simp

lemma ratio_invalid_description: "ratio invalid_description invalid_description = 1"
  by (rule ratio_same) (simp add: invalid_description_def str_def)

section \<open>Properties of the Similarity Matcher\<close>

text \<open>
  C1 (threshold gating): every 4-tuple in the set returned by \<open>match_descriptions\<close> has
  \<open>ratio(structured description, spreadsheet description) \<ge> threshold\<close>, and a pair of
  items whose descriptions score below the threshold contributes no tuple.
\<close>

theorem match_descriptions_threshold:
  "(\<forall>(jf, ef, jd, ed) \<in> match_descriptions js es t. t \<le> ratio jd ed)
   \<and> (\<forall>(jf, jd) \<in> set js. \<forall>(ef, ed) \<in> set es.
        ratio jd ed < t \<longrightarrow> (jf, ef, jd, ed) \<notin> match_descriptions js es t)"
  by (auto simp: match_descriptions_iff)

theorem match_descriptions_threshold_witness:
  "((str ''a.json'', str ''b.xlsx'', str ''tide'', str ''tide'')
      \<in> match_descriptions [(str ''a.json'', str ''tide'')]
            [(str ''b.xlsx'', str ''tide''), (str ''c.xlsx'', str ''diet'')] (93 / 100)
      \<and> (93 / 100 :: rat) \<le> ratio (str ''tide'') (str ''tide''))
   \<and> (ratio (str ''tide'') (str ''diet'') < 93 / 100
      \<and> (str ''a.json'', str ''c.xlsx'', str ''tide'', str ''diet'')
          \<notin> match_descriptions [(str ''a.json'', str ''tide'')]
            [(str ''b.xlsx'', str ''tide''), (str ''c.xlsx'', str ''diet'')] (93 / 100))"
proof -
  have same: "ratio (str ''tide'') (str ''tide'') = 1"
    by (rule ratio_same) (simp add: str_def)
  have m: "(str ''a.json'', str ''b.xlsx'', str ''tide'', str ''tide'')
      \<in> match_descriptions [(str ''a.json'', str ''tide'')]
            [(str ''b.xlsx'', str ''tide''), (str ''c.xlsx'', str ''diet'')] (93 / 100)"
    by (simp add: match_descriptions_iff same)
  have lt: "ratio (str ''tide'') (str ''diet'') < 93 / 100"
    by (simp add: ratio_tide_diet)
  show ?thesis
    using match_descriptions_threshold[of "[(str ''a.json'', str ''tide'')]"
        "[(str ''b.xlsx'', str ''tide''), (str ''c.xlsx'', str ''diet'')]" "93 / 100"] m lt
    by fastforce
qed

text \<open>
  C8 (re-matching): the set returned depends on the two mappings and the threshold only,
  not on the order in which the dictionaries list their items. Two runs on the same
  mappings therefore return the same set.
\<close>

theorem match_descriptions_order_independent:
  assumes "distinct (map fst js)" "distinct (map fst js')" "map_of js = map_of js'"
    and "distinct (map fst es)" "distinct (map fst es')" "map_of es = map_of es'"
  shows "match_descriptions js es t = match_descriptions js' es' t"
proof -
  have j: "set js = set js'"
    using assms(1-3) by (simp add: map_of_inject_set)
  have e: "set es = set es'"
    using assms(4-6) by (simp add: map_of_inject_set)
  have "x \<in> match_descriptions js es t \<longleftrightarrow> x \<in> match_descriptions js' es' t" for x
    by (cases x) (simp add: match_descriptions_iff j e)
  then show ?thesis by blast
qed

theorem match_descriptions_order_independent_witness:
  "match_descriptions [(str ''a'', str ''tide''), (str ''b'', str ''diet'')] [(str ''c'', str ''tide'')] (1 / 2)
   = match_descriptions [(str ''b'', str ''diet''), (str ''a'', str ''tide'')] [(str ''c'', str ''tide'')] (1 / 2)"
proof -
  have ab: "str ''a'' \<noteq> str ''b''" by (simp add: str_def)
  have m: "map_of [(str ''a'', str ''tide''), (str ''b'', str ''diet'')]
      = map_of [(str ''b'', str ''diet''), (str ''a'', str ''tide'')]"
    using ab by (auto simp: fun_eq_iff)
  show ?thesis
    using ab by (intro match_descriptions_order_independent m) auto
qed

text \<open>
  C2 (sentinel exclusion), as claimed: the Matcher never emits a pair in which a
  description is the sentinel. It fails: with one structured record and one spreadsheet
  record that both carry \<open>"Invalid description"\<close>, the pair is emitted at threshold 1.0.
\<close>

theorem sentinel_excluded_counterexample:
  "(str ''a.json'', str ''b.xlsx'', invalid_description, invalid_description)
     \<in> match_descriptions [(str ''a.json'', invalid_description)]
          [(str ''b.xlsx'', invalid_description)] 1"
  by (simp add: match_descriptions_iff ratio_invalid_description)

text \<open>
  C2, amended: the Matcher has no sentinel exclusion. Whenever both mappings hold a record
  whose description is the sentinel, the pair of the two is emitted at every threshold
  \<open>\<le> 1.0\<close>, because the sentinel compared with itself scores 1.0.
\<close>

theorem sentinel_pair_is_matched:
  "(jf, invalid_description) \<in> set js \<Longrightarrow> (ef, invalid_description) \<in> set es \<Longrightarrow> t \<le> 1 \<Longrightarrow>
   ratio invalid_description invalid_description = 1
   \<and> (jf, ef, invalid_description, invalid_description) \<in> match_descriptions js es t"
  by (simp add: match_descriptions_iff ratio_invalid_description)

theorem sentinel_pair_is_matched_witness:
  "(93 / 100 :: rat) \<le> 1
   \<and> (str ''j'', str ''e'', invalid_description, invalid_description)
       \<in> match_descriptions [(str ''j'', invalid_description)] [(str ''e'', invalid_description)] (93 / 100)"
  using sentinel_pair_is_matched[of "str ''j''" "[(str ''j'', invalid_description)]"
      "str ''e''" "[(str ''e'', invalid_description)]" "93 / 100"]
  by simp

text \<open>
  C3 (similarity symmetry), as claimed: \<open>ratio(a, b) = ratio(b, a)\<close> for all strings. It
  fails: \<open>"tide"\<close> against \<open>"diet"\<close> scores 0.25 and \<open>"diet"\<close> against \<open>"tide"\<close>
  scores 0.5.
\<close>

theorem ratio_symmetric_counterexample:
  "ratio (str ''tide'') (str ''diet'') \<noteq> ratio (str ''diet'') (str ''tide'')"
  by (simp add: ratio_tide_diet ratio_diet_tide)

text \<open>
  C3, amended: the two orders agree when the strings are equal and when they have no
  character in common (so also when one of them is empty).
\<close>

theorem ratio_symmetric_equal_or_disjoint:
  "a = b \<or> set a \<inter> set b = {} \<Longrightarrow> ratio a b = ratio b a"
proof (cases "a = b")
  case True
  then show ?thesis by simp
next
  case False
  assume "a = b \<or> set a \<inter> set b = {}"
  then have d: "set a \<inter> set b = {}" "set b \<inter> set a = {}"
    using False by auto
  show ?thesis
    unfolding ratio_disjoint[OF d(1)] ratio_disjoint[OF d(2)] by auto
qed

theorem ratio_symmetric_equal_or_disjoint_witness:
  "set (str ''ab'') \<inter> set (str ''cd'') = {}
   \<and> ratio (str ''ab'') (str ''cd'') = ratio (str ''cd'') (str ''ab'')"
proof -
  have d: "set (str ''ab'') \<inter> set (str ''cd'') = {}" by (simp add: str_def)
  show ?thesis
    using d ratio_symmetric_equal_or_disjoint[of "str ''ab''" "str ''cd''"] by simp
qed

section \<open>Properties of the Text Normalizer/Extractor\<close>

text \<open>
  C4: a spreadsheet record whose description cell is absent or is not a string gets the
  sentinel and no error is raised. The code does otherwise. A cell that holds the number
  42 gives the description \<open>"42"\<close>: \<open>str(...)\<close> has made a string of it before
  \<open>isinstance\<close> looks at it, so the branch that assigns \<open>"Invalid description"\<close> is never
  taken. A data frame without the column raises \<open>KeyError\<close>, and a column of five rows
  raises \<open>IndexError\<close>.
\<close>

theorem excel_description_non_string_cell:
  "excel_description
     [str ''Unnamed: 7'' \<mapsto> replicate 5 (Other (str ''nan'')) @ [Other (str ''42'')]]
     = Inr (str ''42'')
   \<and> str ''42'' \<noteq> invalid_description
   \<and> excel_description Map.empty = Inl KeyError
   \<and> excel_description [str ''Unnamed: 7'' \<mapsto> replicate 5 (Other (str ''nan''))]
       = Inl IndexError"
proof -
  have "excel_description
     [str ''Unnamed: 7'' \<mapsto> replicate 5 (Other (str ''nan'')) @ [Other (str ''42'')]]
     = Inr (str ''42'')"
    by code_simp
  moreover have "str ''42'' \<noteq> invalid_description"
    by (simp add: str_def invalid_description_def)
  moreover have "excel_description Map.empty = Inl KeyError"
    by (simp add: excel_description_def)
  moreover have "excel_description [str ''Unnamed: 7'' \<mapsto> replicate 5 (Other (str ''nan''))]
       = Inl IndexError"
    by (simp add: excel_description_def)
  ultimately show ?thesis by simp
qed




text \<open>
  C10, as claimed: for every text of a structured record the description is the text
  from two characters after the first \<open>) \<close> to five characters before the first \<open>",\<close>
  that follows, stripped. It fails for a record in which \<open>) \<close> does not occur: \<open>find\<close>
  returns \<open>-1\<close> and the extraction starts at index 1. For the record
  \<open>{"name": "Campaign A", "id": 1}\<close> there is no text after a first \<open>) \<close>, and the code
  returns \<open>name": "Campa\<close>.
\<close>

theorem json_description_counterexample:
  "json_description
     (str ''{'' @ quote @ str ''name'' @ quote @ str '': '' @ quote @ str ''Campaign A''
        @ quote_comma @ str '' '' @ quote @ str ''id'' @ quote @ str '': 1}'')
     = str ''name'' @ quote @ str '': '' @ quote @ str ''Campa''
   \<and> first_occurrence
        (str ''{'' @ quote @ str ''name'' @ quote @ str '': '' @ quote @ str ''Campaign A''
           @ quote_comma @ str '' '' @ quote @ str ''id'' @ quote @ str '': 1}'')
        (str '') '') 0 = None
   \<and> claimed_json_description
        (str ''{'' @ quote @ str ''name'' @ quote @ str '': '' @ quote @ str ''Campaign A''
           @ quote_comma @ str '' '' @ quote @ str ''id'' @ quote @ str '': 1}'')
       \<noteq> Some (json_description
            (str ''{'' @ quote @ str ''name'' @ quote @ str '': '' @ quote @ str ''Campaign A''
               @ quote_comma @ str '' '' @ quote @ str ''id'' @ quote @ str '': 1}''))"
proof -
  let ?s = "str ''{'' @ quote @ str ''name'' @ quote @ str '': '' @ quote @ str ''Campaign A''
              @ quote_comma @ str '' '' @ quote @ str ''id'' @ quote @ str '': 1}''"
  have j: "json_description ?s = str ''name'' @ quote @ str '': '' @ quote @ str ''Campa''"
    by code_simp
  have n: "first_occurrence ?s (str '') '') 0 = None"
    by code_simp
  have c: "claimed_json_description ?s = None"
    unfolding claimed_json_description_def n by simp
  show ?thesis
    unfolding c using j n by simp
qed

text \<open>
  C10, amended: when \<open>) \<close> occurs in the text of the record, first at index \<open>p\<close>, and \<open>",\<close>
  occurs at or after \<open>p + 2\<close>, first at index \<open>q\<close>, and \<open>q\<close> is at least 5, the description
  is the text from \<open>p + 2\<close> to \<open>q - 5\<close>, stripped of whitespace and then of double quotes.
\<close>

theorem json_description_between_markers:
  assumes "first_occurrence s (str '') '') 0 = Some p"
    and "first_occurrence s quote_comma (p + 2) = Some q" "5 \<le> q"
  shows "json_description s = py_strip_chars (py_strip (substring s (p + 2) (q - 5))) quote"
proof -
  have o: "take (length (str '') '')) (drop p s) = str '') ''"
    using first_occurrence_SomeD[OF assms(1)] by blast
  have "length (take (length (str '') '')) (drop p s)) = length (str '') '')"
    unfolding o ..
  then have p2: "p + 2 \<le> length s" by simp
  have q: "q \<le> length s"
    using first_occurrence_SomeD[OF assms(2)] by simp
  have "py_find s (str '') '') (int 0) = int p"
    by (subst py_find_first_occurrence) (simp_all add: assms(1))
  then have start: "py_find s (str '') '') 0 + 2 = int (p + 2)" by simp
  have "py_find s quote_comma (int (p + 2)) =
      (case first_occurrence s quote_comma (p + 2) of None \<Rightarrow> - 1 | Some k \<Rightarrow> int k)"
    by (rule py_find_first_occurrence[OF p2])
  then have "py_find s quote_comma (int (p + 2)) = int q"
    unfolding assms(2) by simp
  then have stop: "py_find s quote_comma (int (p + 2)) - 5 = int (q - 5)"
    using assms(3) by simp
  have sl: "py_slice s (int (p + 2)) (Some (int (q - 5))) = substring s (p + 2) (q - 5)"
    unfolding py_slice_def Let_def option.case slice_index_nonneg substring_def
    using p2 q by (simp add: min_def)
  show ?thesis
    unfolding json_description_def start Let_def stop sl ..
qed



theorem json_description_between_markers_witness:
  "first_occurrence
     (str ''{'' @ quote @ str ''d'' @ quote @ str '': '' @ quote @ str ''(A) Envio de SMS a todos''
        @ quote_comma @ str '' '' @ quote @ str ''n'' @ quote @ str '': 1}'')
     (str '') '') 0 = Some 9
   \<and> first_occurrence
        (str ''{'' @ quote @ str ''d'' @ quote @ str '': '' @ quote @ str ''(A) Envio de SMS a todos''
           @ quote_comma @ str '' '' @ quote @ str ''n'' @ quote @ str '': 1}'')
        quote_comma (9 + 2) = Some 31
   \<and> (5 :: nat) \<le> 31
   \<and> json_description
        (str ''{'' @ quote @ str ''d'' @ quote @ str '': '' @ quote @ str ''(A) Envio de SMS a todos''
           @ quote_comma @ str '' '' @ quote @ str ''n'' @ quote @ str '': 1}'')
       = str ''Envio de SMS a''"
proof -
  let ?s = "str ''{'' @ quote @ str ''d'' @ quote @ str '': '' @ quote @ str ''(A) Envio de SMS a todos''
              @ quote_comma @ str '' '' @ quote @ str ''n'' @ quote @ str '': 1}''"
  have p: "first_occurrence ?s (str '') '') 0 = Some 9"
    by code_simp
  have q: "first_occurrence ?s quote_comma (9 + 2) = Some 31"
    by code_simp
  have r: "py_strip_chars (py_strip (substring ?s (9 + 2) (31 - 5))) quote = str ''Envio de SMS a''"
    by code_simp
  show ?thesis
    using json_description_between_markers[OF p q] p q r by simp
qed

section \<open>Properties of the few-shot conversation and of the requesters\<close>

text \<open>
  C5 (conversation shape): with three worked examples the assembled conversation has
  exactly 7 turns: the rules as a user turn, then for each of the examples 1, 2 and 3 in
  this order its request as a user turn and its expected response as an assistant turn.
  The request of example \<open>n\<close> is filled with the \<open>n\<close>-th example document and the \<open>n\<close>-th
  converted briefing.
\<close>

theorem build_claude_prompt_shape:
  "3 \<le> length example_jsons_list \<Longrightarrow> 3 \<le> length example_briefings_list \<Longrightarrow>
   build_claude_prompt example_jsons_list example_briefings_list
     = Inr [\<lparr>role = USER, content = [Rules]\<rparr>,
            \<lparr>role = USER,
             content = [FirstExample (example_jsons_list ! 0) (example_briefings_list ! 0)]\<rparr>,
            \<lparr>role = ASSISTANT, content = [ExpectedResponse1]\<rparr>,
            \<lparr>role = USER,
             content = [SecondExample (example_jsons_list ! 1) (example_briefings_list ! 1)]\<rparr>,
            \<lparr>role = ASSISTANT, content = [ExpectedResponse2]\<rparr>,
            \<lparr>role = USER,
             content = [ThirdExample (example_jsons_list ! 2) (example_briefings_list ! 2)]\<rparr>,
            \<lparr>role = ASSISTANT, content = [ExpectedResponse3]\<rparr>]
   \<and> (\<exists>claude_prompt.
         build_claude_prompt example_jsons_list example_briefings_list = Inr claude_prompt
         \<and> length claude_prompt = 7
         \<and> map role claude_prompt = [USER, USER, ASSISTANT, USER, ASSISTANT, USER, ASSISTANT])"
  by (auto simp: build_claude_prompt_def item_def transform_string_to_prompt_def Let_def)

theorem build_claude_prompt_shape_witness:
  "(3 :: nat) \<le> length [str ''j1'', str ''j2'', str ''j3'']
   \<and> (3 :: nat) \<le> length [str ''b1'', str ''b2'', str ''b3'']
   \<and> build_claude_prompt [str ''j1'', str ''j2'', str ''j3''] [str ''b1'', str ''b2'', str ''b3'']
       = Inr [\<lparr>role = USER, content = [Rules]\<rparr>,
              \<lparr>role = USER, content = [FirstExample (str ''j1'') (str ''b1'')]\<rparr>,
              \<lparr>role = ASSISTANT, content = [ExpectedResponse1]\<rparr>,
              \<lparr>role = USER, content = [SecondExample (str ''j2'') (str ''b2'')]\<rparr>,
              \<lparr>role = ASSISTANT, content = [ExpectedResponse2]\<rparr>,
              \<lparr>role = USER, content = [ThirdExample (str ''j3'') (str ''b3'')]\<rparr>,
              \<lparr>role = ASSISTANT, content = [ExpectedResponse3]\<rparr>]
   \<and> (\<exists>claude_prompt.
         build_claude_prompt [str ''j1'', str ''j2'', str ''j3''] [str ''b1'', str ''b2'', str ''b3'']
           = Inr claude_prompt
         \<and> length claude_prompt = 7
         \<and> map role claude_prompt = [USER, USER, ASSISTANT, USER, ASSISTANT, USER, ASSISTANT])"
  using build_claude_prompt_shape[of "[str ''j1'', str ''j2'', str ''j3'']"
      "[str ''b1'', str ''b2'', str ''b3'']"]
  by simp

text \<open>
  C6: every matched pair is compared with a conversation of 8 turns, the 7 few-shot
  turns and its own request. The code does otherwise from the second pair on:
  \<open>compare_json_excel\<close> extends the list \<open>claude_prompt\<close> itself, so the request of the
  first pair is still in it when the second pair is compared. In the run with two
  matched pairs the four requests sent carry 1, 8, 1 and 9 turns, and the last one ends
  with the requests of both pairs.
\<close>

theorem second_comparison_carries_first_request:
  "map (\<lambda>req. length (messages req))
     (sent (snd (snd (matches_loop (scenario_env quiet_service) scenario_matches few_shot
                        initial_world))))
   = [1, 8, 1, 9]
   \<and> messages (sent (snd (snd (matches_loop (scenario_env quiet_service) scenario_matches few_shot
                        initial_world))) ! 3)
     = few_shot @ [\<lparr>role = USER, content = [NewRequest (str ''ok'') (str ''ja'')]\<rparr>,
                   \<lparr>role = USER, content = [NewRequest (str ''ok'') (str ''jb'')]\<rparr>]"
  by (simp add: run_defs)

text \<open>
  C7: when a call of the completion service made by \<open>process_excel_content\<close> or by
  \<open>compare_json_excel\<close> raises an error, the program prints the error line with the model
  identifier and the error and stops with \<open>exit(1)\<close>, with no retry and without
  processing any further matched pair. In order: \<open>process_excel_content\<close> sends the one
  request, prints the line and exits; \<open>compare_json_excel\<close> does the same; an early stop
  of either is the result of the iteration of the loop; an early stop of an iteration is
  the result of the whole loop, whatever pairs remain. The last three parts say it for
  the log of requests: a request for which the service raised is the last one sent, and
  the error line is the last line printed.
\<close>

theorem completion_failure_is_fatal:
  "(load_example_json e w = (Inr (), w1) \<longrightarrow>
    service e (length (sent w))
      (conversion_request excel_content (the (example_json_content w1))) = Raised err \<longrightarrow>
    process_excel_content e excel_content w =
      (Inl (Exit 1),
       w1\<lparr>sent := sent w @ [conversion_request excel_content (the (example_json_content w1))],
           stdout := stdout w @ [InvokeError model_id err]\<rparr>))
   \<and> (text_files e json_path = Some json_content \<longrightarrow>
      service e (length (sent w))
        (comparison_request
           (prompt @ transform_string_to_prompt (NewRequest clean_briefing json_content) USER))
        = Raised err \<longrightarrow>
      compare_json_excel e clean_briefing json_path prompt w =
        (Inl (Exit 1),
         prompt @ transform_string_to_prompt (NewRequest clean_briefing json_content) USER,
         w\<lparr>sent := sent w @
                 [comparison_request
                    (prompt @ transform_string_to_prompt (NewRequest clean_briefing json_content) USER)],
            stdout := stdout w @ [InvokeError model_id err]\<rparr>))
   \<and> (excel_strings e excel_file = Some excel_str \<longrightarrow>
      process_excel_content e excel_str w = (Inl s, w') \<longrightarrow>
      process_match e (json_file, excel_file, json_desc, excel_desc) claude_prompt w
        = (Inl s, claude_prompt, w'))
   \<and> (excel_strings e excel_file = Some excel_str \<longrightarrow>
      process_excel_content e excel_str w = (Inr clean_briefing, w1) \<longrightarrow>
      compare_json_excel e clean_briefing json_file claude_prompt w1 = (Inl s, prompt', w') \<longrightarrow>
      process_match e (json_file, excel_file, json_desc, excel_desc) claude_prompt w
        = (Inl s, prompt', w'))
   \<and> (process_match e m claude_prompt w = (Inl s, prompt', w') \<longrightarrow>
      matches_loop e (m # ms) claude_prompt w = (Inl s, prompt', w'))
   \<and> fatal_on_failure e w (snd (process_excel_content e excel_content w))
       (stopped (fst (process_excel_content e excel_content w)))
   \<and> fatal_on_failure e w (snd (snd (compare_json_excel e clean_briefing json_path prompt w)))
       (stopped (fst (compare_json_excel e clean_briefing json_path prompt w)))
   \<and> fatal_on_failure e w (snd (snd (matches_loop e ms claude_prompt w)))
       (stopped (fst (matches_loop e ms claude_prompt w)))"
proof -
  have conversion: "process_excel_content e excel_content w =
      (Inl (Exit 1),
       w1\<lparr>sent := sent w @ [conversion_request excel_content (the (example_json_content w1))],
           stdout := stdout w @ [InvokeError model_id err]\<rparr>)"
    if l: "load_example_json e w = (Inr (), w1)"
      and r: "service e (length (sent w))
        (conversion_request excel_content (the (example_json_content w1))) = Raised err"
  proof -
    have u: "sent w1 = sent w" "stdout w1 = stdout w"
      using load_example_json_sent[of e w] load_example_json_stdout[of e w] l by simp_all
    show ?thesis
      unfolding process_excel_content_def l using r by (simp add: Let_def u)
  qed
  have comparison: "compare_json_excel e clean_briefing json_path prompt w =
        (Inl (Exit 1),
         prompt @ transform_string_to_prompt (NewRequest clean_briefing json_content) USER,
         w\<lparr>sent := sent w @
                 [comparison_request
                    (prompt @ transform_string_to_prompt (NewRequest clean_briefing json_content) USER)],
            stdout := stdout w @ [InvokeError model_id err]\<rparr>)"
    if "text_files e json_path = Some json_content"
      and "service e (length (sent w))
        (comparison_request
           (prompt @ transform_string_to_prompt (NewRequest clean_briefing json_content) USER))
        = Raised err"
    using that by (simp add: compare_json_excel_def Let_def)
  show ?thesis
    using conversion comparison
    by (simp add: process_match_def process_excel_content_fatal compare_json_excel_fatal
        matches_loop_fatal)
qed

theorem completion_failure_is_fatal_witness:
  "service (scenario_env (failing_service 0)) (length (sent initial_world))
      (conversion_request (str ''xa'') (str ''{}'')) = Raised (str ''timeout'')
   \<and> matches_loop (scenario_env (failing_service 0)) scenario_matches few_shot initial_world
       = (Inl (Exit 1), few_shot,
          \<lparr>sent = [conversion_request (str ''xa'') (str ''{}'')],
           stdout = [InvokeError model_id (str ''timeout'')],
           example_json_content = Some (str ''{}'')\<rparr>)
   \<and> service (scenario_env (failing_service 1)) 1
        (comparison_request
           (few_shot @ transform_string_to_prompt (NewRequest (str ''ok'') (str ''ja'')) USER))
        = Raised (str ''timeout'')
   \<and> matches_loop (scenario_env (failing_service 1)) scenario_matches few_shot initial_world
       = (Inl (Exit 1),
          few_shot @ transform_string_to_prompt (NewRequest (str ''ok'') (str ''ja'')) USER,
          \<lparr>sent = [conversion_request (str ''xa'') (str ''{}''),
                   comparison_request
                     (few_shot @ transform_string_to_prompt (NewRequest (str ''ok'') (str ''ja'')) USER)],
           stdout = [InvokeError model_id (str ''timeout'')],
           example_json_content = Some (str ''{}'')\<rparr>)
   \<and> stopped (fst (matches_loop (scenario_env (failing_service 1)) scenario_matches
                     few_shot initial_world)) = Some (Exit 1)
   \<and> last (stdout (snd (snd (matches_loop (scenario_env (failing_service 1)) scenario_matches
                                few_shot initial_world))))
      = InvokeError model_id (str ''timeout'')"
proof -
  let ?e0 = "scenario_env (failing_service 0)"
  let ?e1 = "scenario_env (failing_service 1)"
  let ?loaded = "initial_world\<lparr>example_json_content := Some (str ''{}'')\<rparr>"
  let ?conv = "conversion_request (str ''xa'') (str ''{}'')"
  let ?turns = "few_shot @ transform_string_to_prompt (NewRequest (str ''ok'') (str ''ja'')) USER"
  let ?after = "\<lparr>sent = [?conv], stdout = [], example_json_content = Some (str ''{}'')\<rparr>"

  have l0: "load_example_json ?e0 initial_world = (Inr (), ?loaded)"
    by (simp add: load_example_json_def scenario_env_def initial_world_def)
  have r0: "service ?e0 (length (sent initial_world))
      (conversion_request (str ''xa'') (the (example_json_content ?loaded))) = Raised (str ''timeout'')"
    by (simp add: scenario_env_def failing_service_def initial_world_def)
  have x0: "excel_strings ?e0 (str ''a.xlsx'') = Some (str ''xa'')"
    by (simp add: scenario_env_def str_def)
  note c1 = completion_failure_is_fatal[THEN conjunct1, rule_format, OF l0 r0]
  note c3 = completion_failure_is_fatal[THEN conjunct2, THEN conjunct2, THEN conjunct1,
      rule_format, OF x0 c1]
  note c5 = completion_failure_is_fatal[THEN conjunct2, THEN conjunct2, THEN conjunct2,
      THEN conjunct2, THEN conjunct1, rule_format, OF c3]
  have a: "matches_loop ?e0 scenario_matches few_shot initial_world
       = (Inl (Exit 1), few_shot,
          \<lparr>sent = [?conv], stdout = [InvokeError model_id (str ''timeout'')],
           example_json_content = Some (str ''{}'')\<rparr>)"
    unfolding scenario_matches_def using c5 by (simp add: initial_world_def)

  have p1: "process_excel_content ?e1 (str ''xa'') initial_world = (Inr (str ''ok''), ?after)"
    by (simp add: run_defs)
  have t1: "text_files ?e1 (str ''a.json'') = Some (str ''ja'')"
    by (simp add: scenario_env_def str_def)
  have x1: "excel_strings ?e1 (str ''a.xlsx'') = Some (str ''xa'')"
    by (simp add: scenario_env_def str_def)
  have r1: "service ?e1 (length (sent ?after)) (comparison_request ?turns) = Raised (str ''timeout'')"
    by (simp add: scenario_env_def failing_service_def)
  note d2 = completion_failure_is_fatal[THEN conjunct2, THEN conjunct1, rule_format, OF t1 r1]
  note d4 = completion_failure_is_fatal[THEN conjunct2, THEN conjunct2, THEN conjunct2,
      THEN conjunct1, rule_format, OF x1 p1 d2]
  note d5 = completion_failure_is_fatal[THEN conjunct2, THEN conjunct2, THEN conjunct2,
      THEN conjunct2, THEN conjunct1, rule_format, OF d4]
  have b: "matches_loop ?e1 scenario_matches few_shot initial_world
       = (Inl (Exit 1), ?turns,
          \<lparr>sent = [?conv, comparison_request ?turns],
           stdout = [InvokeError model_id (str ''timeout'')],
           example_json_content = Some (str ''{}'')\<rparr>)"
    unfolding scenario_matches_def using d5 by simp

  have s0: "service ?e0 (length (sent initial_world)) ?conv = Raised (str ''timeout'')"
    using r0 by simp
  have s1: "service ?e1 1 (comparison_request ?turns) = Raised (str ''timeout'')"
    using r1 by simp
  show ?thesis
    unfolding a b using s0 s1 by simp
qed

end
